theory Spec2Isabelle
  imports Complex_Main
begin

section \<open>Data model (types/draft.ts)\<close>

text \<open>
  The eight roster positions of the union type \<open>Position\<close>. JavaScript numbers that
  count things (capacities, filled-counts, pick numbers, team indices) are modelled as
  \<open>int\<close>, array indices that only ever grow from 0 as \<open>nat\<close>, and floating-point
  quantities (ADP, scores) as \<open>real\<close>, that is, without rounding.
\<close>

datatype Position = C | LW | RW | D | G | F | UTIL | BENCH

text \<open>
  \<open>DraftPlayer\<close>: the required fields of the interface. The optional display
  statistics (fantasy points, goals, assists, ...) are never read by the draft engine;
  they live in the extension slot of the record.
\<close>

record DraftPlayer =
  playerId :: string
  skaterFullName :: string
  teamAbbrevs :: string
  positionCode :: string
  positions :: "Position list"
  espnADP :: real
  espnPercentOwned :: real
  espnTotalRanking :: real

text \<open>
  \<open>RosterConfig\<close> and \<open>TeamRoster['filledPositions']\<close> are objects with exactly
  one numeric field per position, read in the source as \<open>rosterConfig[pos]\<close>: total maps
  from positions to numbers.
\<close>

type_synonym RosterConfig = "Position \<Rightarrow> int"

type_synonym FilledPositions = "Position \<Rightarrow> int"

record TeamRoster =
  teamIndex :: int
  teamName :: string
  isUser :: bool
  picks :: "DraftPlayer list"
  filledPositions :: FilledPositions

section \<open>Roster assignment (utils/draftEngine.ts)\<close>

text \<open>\<open>canFillPosition\<close>: F takes any forward, UTIL takes anyone, otherwise direct match.\<close>

definition canFillPosition :: "DraftPlayer \<Rightarrow> Position \<Rightarrow> bool" where
  "canFillPosition player pos =
     (if pos = F then list_ex (\<lambda>p. p \<in> set [C, LW, RW]) (positions player)
      else if pos = UTIL then True
      else pos \<in> set (positions player))"

text \<open>
  \<open>getAvailablePositionsForPlayer\<close>: the loop over the seven position types pushes, in
  order, each one the player can fill and that is below capacity; BENCH is appended
  whenever it is below capacity.
\<close>

definition positionTypes :: "Position list" where
  "positionTypes = [C, LW, RW, D, G, F, UTIL]"

definition getAvailablePositionsForPlayer ::
  "DraftPlayer \<Rightarrow> FilledPositions \<Rightarrow> RosterConfig \<Rightarrow> Position list" where
  "getAvailablePositionsForPlayer player filled rosterConfig =
     filter (\<lambda>pos. canFillPosition player pos \<and> filled pos < rosterConfig pos) positionTypes
     @ (if filled BENCH < rosterConfig BENCH then [BENCH] else [])"

text \<open>
  \<open>roster.filledPositions[pos]++\<close>: the in-place increment, as an update of the roster
  that is handed back to the caller.
\<close>

definition incrementFilled :: "TeamRoster \<Rightarrow> Position \<Rightarrow> TeamRoster" where
  "incrementFilled roster pos =
     roster\<lparr>filledPositions := (filledPositions roster)(pos := filledPositions roster pos + 1)\<rparr>"

definition primaryPositions :: "Position list" where
  "primaryPositions = [C, LW, RW, D, G]"

text \<open>
  \<open>assignPlayerToRoster\<close> returns the assigned position (\<open>None\<close> for the source's
  \<open>null\<close>) together with the roster after the mutation. The four steps and the final
  fallback on \<open>available[0]\<close> are kept in the source's order.
\<close>

definition assignPlayerToRoster ::
  "DraftPlayer \<Rightarrow> TeamRoster \<Rightarrow> RosterConfig \<Rightarrow> Position option \<times> TeamRoster" where
  "assignPlayerToRoster player roster rosterConfig =
     (let available = getAvailablePositionsForPlayer player (filledPositions roster) rosterConfig
      in case available of
           [] \<Rightarrow> (None, roster)
         | a0 # _ \<Rightarrow>
             (case List.find (\<lambda>pos. pos \<in> set (positions player) \<and> pos \<in> set available)
                     primaryPositions of
                Some pos \<Rightarrow> (Some pos, incrementFilled roster pos)
              | None \<Rightarrow>
                  if F \<in> set available
                     \<and> list_ex (\<lambda>p. p \<in> set [C, LW, RW]) (positions player)
                  then (Some F, incrementFilled roster F)
                  else if UTIL \<in> set available then (Some UTIL, incrementFilled roster UTIL)
                  else if BENCH \<in> set available then (Some BENCH, incrementFilled roster BENCH)
                  else (Some a0, incrementFilled roster a0)))"

subsection \<open>The selection priority as the specification words it\<close>

definition hasCapacity :: "FilledPositions \<Rightarrow> RosterConfig \<Rightarrow> Position \<Rightarrow> bool" where
  "hasCapacity filled rosterConfig pos = (filled pos < rosterConfig pos)"

definition isForward :: "DraftPlayer \<Rightarrow> bool" where
  "isForward player = (C \<in> set (positions player) \<or> LW \<in> set (positions player)
                       \<or> RW \<in> set (positions player))"

definition spec_assign :: "DraftPlayer \<Rightarrow> FilledPositions \<Rightarrow> RosterConfig \<Rightarrow> Position option" where
  "spec_assign player filled rosterConfig =
     (if C \<in> set (positions player) \<and> hasCapacity filled rosterConfig C then Some C
      else if LW \<in> set (positions player) \<and> hasCapacity filled rosterConfig LW then Some LW
      else if RW \<in> set (positions player) \<and> hasCapacity filled rosterConfig RW then Some RW
      else if D \<in> set (positions player) \<and> hasCapacity filled rosterConfig D then Some D
      else if G \<in> set (positions player) \<and> hasCapacity filled rosterConfig G then Some G
      else if isForward player \<and> hasCapacity filled rosterConfig F then Some F
      else if hasCapacity filled rosterConfig UTIL then Some UTIL
      else if hasCapacity filled rosterConfig BENCH then Some BENCH
      else None)"

definition noSlot :: "DraftPlayer \<Rightarrow> FilledPositions \<Rightarrow> RosterConfig \<Rightarrow> bool" where
  "noSlot player filled rosterConfig =
     (\<not> (C \<in> set (positions player) \<and> hasCapacity filled rosterConfig C)
      \<and> \<not> (LW \<in> set (positions player) \<and> hasCapacity filled rosterConfig LW)
      \<and> \<not> (RW \<in> set (positions player) \<and> hasCapacity filled rosterConfig RW)
      \<and> \<not> (D \<in> set (positions player) \<and> hasCapacity filled rosterConfig D)
      \<and> \<not> (G \<in> set (positions player) \<and> hasCapacity filled rosterConfig G)
      \<and> \<not> (isForward player \<and> hasCapacity filled rosterConfig F)
      \<and> \<not> hasCapacity filled rosterConfig UTIL
      \<and> \<not> hasCapacity filled rosterConfig BENCH)"

subsection \<open>Repeated assignment and the total of the filled-counts\<close>

definition allPositions :: "Position list" where
  "allPositions = [C, LW, RW, D, G, F, UTIL, BENCH]"

definition totalFilled :: "FilledPositions \<Rightarrow> int" where
  "totalFilled filled = sum_list (map filled allPositions)"

text \<open>
  \<open>assignMany\<close> calls \<open>assignPlayerToRoster\<close> once per player, in order, on the same
  roster, and collects the returned positions.
\<close>

fun assignMany ::
  "DraftPlayer list \<Rightarrow> TeamRoster \<Rightarrow> RosterConfig \<Rightarrow> Position option list \<times> TeamRoster" where
  "assignMany [] roster rosterConfig = ([], roster)"
| "assignMany (p # ps) roster rosterConfig =
     (case assignPlayerToRoster p roster rosterConfig of
        (r, roster') \<Rightarrow>
          (case assignMany ps roster' rosterConfig of
             (rs, roster'') \<Rightarrow> (r # rs, roster'')))"

section \<open>Positional needs (utils/draftEngine.ts)\<close>

definition getPositionalNeeds :: "TeamRoster \<Rightarrow> RosterConfig \<Rightarrow> Position \<Rightarrow> int" where
  "getPositionalNeeds roster cfg = (\<lambda>pos. max 0 (cfg pos - filledPositions roster pos))"

record CriticalNeeds =
  hasNeeds :: bool
  criticalPositions :: "Position list"

definition criticalPosTypes :: "Position list" where
  "criticalPosTypes = [C, LW, RW, D, G]"

definition hasCriticalPositionalNeeds :: "TeamRoster \<Rightarrow> RosterConfig \<Rightarrow> CriticalNeeds" where
  "hasCriticalPositionalNeeds roster cfg =
     (let needs = getPositionalNeeds roster cfg;
          crit = filter (\<lambda>pos. needs pos > 0 \<and> cfg pos > 0) criticalPosTypes
      in \<lparr>hasNeeds = (length crit > 0), criticalPositions = crit\<rparr>)"

section \<open>CPU decision engine (utils/cpuDraftLogic.ts)\<close>

record CPUDraftWeights =
  adpWeight :: real
  positionalNeedWeight :: real
  valueWeight :: real
  randomnessWeight :: real

definition DEFAULT_CPU_WEIGHTS :: CPUDraftWeights where
  "DEFAULT_CPU_WEIGHTS =
     \<lparr>adpWeight = 0.5, positionalNeedWeight = 0.3, valueWeight = 0.15, randomnessWeight = 0.05\<rparr>"

text \<open>
  Steps 1 to 4 of \<open>scorePlayerForCPU\<close>: the four weighted signals, summed. The outcome
  of the call to \<open>Math.random()\<close> is the parameter \<open>rand\<close>.
\<close>

definition positionalScore :: "DraftPlayer \<Rightarrow> (Position \<Rightarrow> int) \<Rightarrow> real" where
  "positionalScore player needs =
     (let ps1 = foldl (\<lambda>ps pos. if needs pos > 0 then max ps (real_of_int (needs pos * 20)) else ps)
                  0 (positions player);
          ps2 = (if needs F > 0 \<and> list_ex (\<lambda>p. p \<in> set [C, LW, RW]) (positions player)
                 then max ps1 (real_of_int (needs F * 15)) else ps1);
          ps3 = (if needs UTIL > 0 then max ps2 (real_of_int (needs UTIL * 5)) else ps2)
      in ps3)"

definition weightedScore ::
  "DraftPlayer \<Rightarrow> TeamRoster \<Rightarrow> RosterConfig \<Rightarrow> int \<Rightarrow> CPUDraftWeights \<Rightarrow> real \<Rightarrow> real" where
  "weightedScore player roster cfg currentPickNumber weights rand =
     (let adpDiff = \<bar>espnADP player - real_of_int currentPickNumber\<bar>;
          adpScore = max 0 (100 - adpDiff * 2);
          needs = getPositionalNeeds roster cfg;
          valueScore = max 0 (200 - espnADP player);
          randomScore = rand * 100
      in 0 + adpScore * adpWeight weights
           + positionalScore player needs * positionalNeedWeight weights
           + valueScore * valueWeight weights
           + randomScore * randomnessWeight weights)"

text \<open>
  The condition guarding \<open>score *= 0.4\<close> in step 5:
  \<open>player.positions.includes('G')\<close>, then
  \<open>currentPickNumber < 50 && needs.G < rosterConfig.G\<close>.
\<close>

definition goaliePenaltyApplies :: "DraftPlayer \<Rightarrow> TeamRoster \<Rightarrow> RosterConfig \<Rightarrow> int \<Rightarrow> bool" where
  "goaliePenaltyApplies player roster cfg currentPickNumber =
     (G \<in> set (positions player)
      \<and> currentPickNumber < 50 \<and> getPositionalNeeds roster cfg G < cfg G)"

definition scorePlayerForCPU ::
  "DraftPlayer \<Rightarrow> TeamRoster \<Rightarrow> RosterConfig \<Rightarrow> int \<Rightarrow> CPUDraftWeights \<Rightarrow> real \<Rightarrow> real" where
  "scorePlayerForCPU player roster cfg currentPickNumber weights rand =
     (let score4 = weightedScore player roster cfg currentPickNumber weights rand;
          score5 = (if goaliePenaltyApplies player roster cfg currentPickNumber
                    then score4 * 0.4 else score4);
          score6 = (if currentPickNumber < 30 \<and> C \<in> set (positions player)
                    then score5 * 1.1 else score5);
          score7 = (if currentPickNumber < 30 \<and> D \<in> set (positions player)
                    then score6 * 1.05 else score6)
      in score7)"

text \<open>The goalie need as the specification defines a critical need.\<close>

definition spec_goalieNeedCritical :: "TeamRoster \<Rightarrow> RosterConfig \<Rightarrow> bool" where
  "spec_goalieNeedCritical roster cfg = (cfg G > 0 \<and> filledPositions roster G < cfg G)"

text \<open>The two early-pick boosts of step 5, as one factor.\<close>

definition earlyBoost :: "DraftPlayer \<Rightarrow> int \<Rightarrow> real" where
  "earlyBoost player currentPickNumber =
     (if currentPickNumber < 30 \<and> C \<in> set (positions player) then 1.1 else 1)
     * (if currentPickNumber < 30 \<and> D \<in> set (positions player) then 1.05 else 1)"

text \<open>
  \<open>roster.picks.length / totalSlots > 0.5\<close>. A JavaScript division by zero gives
  \<open>Infinity\<close> (or \<open>NaN\<close> for 0/0, which compares false), written out here.
\<close>

definition totalSlots :: "RosterConfig \<Rightarrow> int" where
  "totalSlots cfg = cfg C + cfg LW + cfg RW + cfg D + cfg G + cfg F + cfg UTIL + cfg BENCH"

definition draftMoreThanHalfComplete :: "TeamRoster \<Rightarrow> RosterConfig \<Rightarrow> bool" where
  "draftMoreThanHalfComplete roster cfg =
     (if totalSlots cfg = 0 then length (picks roster) > 0
      else real (length (picks roster)) / real_of_int (totalSlots cfg) > 0.5)"

definition fillsCritical :: "Position list \<Rightarrow> DraftPlayer \<Rightarrow> bool" where
  "fillsCritical crit player = list_ex (\<lambda>pos. pos \<in> set crit) (positions player)"

text \<open>
  \<open>selectCPUPick\<close>. \<open>rands i\<close> is the outcome of \<open>Math.random()\<close> in the scoring of
  the \<open>i\<close>-th candidate. The sort with comparator \<open>b.score - a.score\<close> is the stable
  sort by descending score.
\<close>

definition selectCPUPick ::
  "DraftPlayer list \<Rightarrow> TeamRoster \<Rightarrow> RosterConfig \<Rightarrow> int \<Rightarrow> CPUDraftWeights \<Rightarrow> (nat \<Rightarrow> real)
     \<Rightarrow> DraftPlayer option" where
  "selectCPUPick availablePlayers roster cfg currentPickNumber weights rands =
     (if length availablePlayers = 0 then None
      else
        let crit = hasCriticalPositionalNeeds roster cfg;
            needBasedPlayers = filter (fillsCritical (criticalPositions crit)) availablePlayers;
            candidatePlayers =
              (if hasNeeds crit \<and> draftMoreThanHalfComplete roster cfg
                  \<and> length needBasedPlayers > 0
               then needBasedPlayers else availablePlayers);
            scoredPlayers =
              map (\<lambda>(i, p). (p, scorePlayerForCPU p roster cfg currentPickNumber weights (rands i)))
                (enumerate 0 candidatePlayers);
            sorted = sort_key (\<lambda>sp. - snd sp) scoredPlayers
        in case sorted of [] \<Rightarrow> None | sp # _ \<Rightarrow> Some (fst sp))"

text \<open>
  \<open>selectAutoPick\<close>. \<open>xs.reduce(f)\<close> without an initial value on a non-empty array
  folds from the first element.
\<close>

definition betterADP :: "DraftPlayer \<Rightarrow> DraftPlayer \<Rightarrow> DraftPlayer" where
  "betterADP best player = (if espnADP player < espnADP best then player else best)"

definition selectAutoPick ::
  "DraftPlayer list \<Rightarrow> TeamRoster \<Rightarrow> RosterConfig \<Rightarrow> DraftPlayer option" where
  "selectAutoPick availablePlayers roster cfg =
     (case availablePlayers of
        [] \<Rightarrow> None
      | a # as \<Rightarrow>
          let crit = hasCriticalPositionalNeeds roster cfg;
              needPlayers = filter (fillsCritical (criticalPositions crit)) availablePlayers
          in if hasNeeds crit
             then (case needPlayers of
                     n # ns \<Rightarrow> Some (foldl betterADP n ns)
                   | [] \<Rightarrow> Some (foldl betterADP a as))
             else Some (foldl betterADP a as))"

section \<open>Snake draft order (utils/draftEngine.ts)\<close>

type_synonym Date = nat

record DraftPick =
  overallPick :: int
  round_no :: int
  pickInRound :: int
  teamIndex :: int
  player :: "DraftPlayer option"
  timestamp :: "Date option"
  isUserPick :: bool

text \<open>
  The object pushed by the inner loop body; the field \<open>round\<close> of the source is
  \<open>round_no\<close> here.
\<close>

definition newDraftPick :: "int \<Rightarrow> int \<Rightarrow> int \<Rightarrow> int \<Rightarrow> int \<Rightarrow> DraftPick" where
  "newDraftPick nTeams userPos rnd pir ovr =
     (let isEvenRound = (rnd mod 2 = 0);
          tIdx = (if isEvenRound then nTeams - pir else pir - 1)
      in \<lparr>overallPick = ovr, round_no = rnd, pickInRound = pir, teamIndex = tIdx,
          player = None, timestamp = None, isUserPick = (tIdx = userPos - 1)\<rparr>)"

text \<open>
  The inner loop \<open>for (pickInRound = 1; pickInRound <= numTeams; pickInRound++)\<close>,
  threading the array built so far and the running \<open>overallPick\<close> counter.
\<close>

function pickLoop ::
  "int \<Rightarrow> int \<Rightarrow> int \<Rightarrow> int \<Rightarrow> DraftPick list \<times> int \<Rightarrow> DraftPick list \<times> int" where
  "pickLoop nTeams userPos rnd pir (acc, ovr) =
     (if pir \<le> nTeams
      then pickLoop nTeams userPos rnd (pir + 1)
             (acc @ [newDraftPick nTeams userPos rnd pir ovr], ovr + 1)
      else (acc, ovr))"
  by pat_completeness auto
termination
  by (relation "measure (\<lambda>(nTeams, userPos, rnd, pir, st). nat (nTeams + 1 - pir))") auto

declare pickLoop.simps [simp del]

text \<open>The outer loop \<open>for (round = 1; round <= numRounds; round++)\<close>.\<close>

function roundLoop ::
  "int \<Rightarrow> int \<Rightarrow> int \<Rightarrow> int \<Rightarrow> DraftPick list \<times> int \<Rightarrow> DraftPick list \<times> int" where
  "roundLoop nTeams nRounds userPos rnd st =
     (if rnd \<le> nRounds
      then roundLoop nTeams nRounds userPos (rnd + 1) (pickLoop nTeams userPos rnd 1 st)
      else st)"
  by pat_completeness auto
termination
  by (relation "measure (\<lambda>(nTeams, nRounds, userPos, rnd, st). nat (nRounds + 1 - rnd))") auto

declare roundLoop.simps [simp del]

definition generateSnakeDraftOrder :: "int \<Rightarrow> int \<Rightarrow> int \<Rightarrow> DraftPick list" where
  "generateSnakeDraftOrder nTeams nRounds userPos = fst (roundLoop nTeams nRounds userPos 1 ([], 1))"

text \<open>The team sequence of one round of a draft order.\<close>

definition roundTeams :: "DraftPick list \<Rightarrow> int \<Rightarrow> int list" where
  "roundTeams order r = map teamIndex (filter (\<lambda>p. round_no p = r) order)"

section \<open>Draft state machine (contexts/DraftContext.tsx)\<close>

datatype DraftFormat = snake

record LeagueSettings =
  numTeams :: int
  draftFormat :: DraftFormat
  userDraftPosition :: int
  draftTimerSeconds :: int
  rosterConfig :: RosterConfig

datatype Tab = AvailableTab | MyTeamTab | DraftBoardTab

record DraftState =
  leagueSettings :: "LeagueSettings option"
  allPlayers :: "DraftPlayer list"
  availablePlayers :: "DraftPlayer list"
  draftOrder :: "DraftPick list"
  currentPickIndex :: nat
  teams :: "TeamRoster list"
  pickTimerRemaining :: int
  isTimerActive :: bool
  currentTab :: Tab
  isDraftStarted :: bool
  isDraftComplete :: bool

text \<open>
  Reading a property of \<open>null\<close> or \<open>undefined\<close> throws a \<open>TypeError\<close>; the reducer
  has no handler, so the error is the result of the whole transition.
\<close>

datatype error = TypeError

text \<open>Array reads: \<open>xs[i]\<close> is \<open>undefined\<close> outside the array.\<close>

definition arrayGet :: "'a list \<Rightarrow> nat \<Rightarrow> 'a option" where
  "arrayGet xs i = (if i < length xs then Some (xs ! i) else None)"

definition arrayGetInt :: "'a list \<Rightarrow> int \<Rightarrow> 'a option" where
  "arrayGetInt xs i = (if 0 \<le> i \<and> i < int (length xs) then Some (xs ! nat i) else None)"

text \<open>
  The callback of \<open>state.teams.map\<close> in \<open>MAKE_PICK\<close>: every other team is returned
  as it is; the owning team is cloned with the player appended to its picks and handed to
  \<open>assignPlayerToRoster\<close>, whose return value is dropped. The non-null assertion
  \<open>state.leagueSettings!.rosterConfig\<close> throws when the settings are \<open>null\<close>.
\<close>

definition updateTeam ::
  "DraftState \<Rightarrow> DraftPick \<Rightarrow> DraftPlayer \<Rightarrow> nat \<Rightarrow> TeamRoster \<Rightarrow> error + TeamRoster" where
  "updateTeam state currentPick plr idx team =
     (if int idx \<noteq> teamIndex currentPick then Inr team
      else
        let updatedTeam = team\<lparr>picks := picks team @ [plr]\<rparr>
        in case leagueSettings state of
             None \<Rightarrow> Inl TypeError
           | Some ls \<Rightarrow> Inr (snd (assignPlayerToRoster plr updatedTeam (rosterConfig ls))))"

text \<open>\<open>Array.prototype.map\<close> with the index, stopping at the first throw.\<close>

fun mapIdx :: "(nat \<Rightarrow> 'a \<Rightarrow> error + 'b) \<Rightarrow> nat \<Rightarrow> 'a list \<Rightarrow> error + 'b list" where
  "mapIdx f i [] = Inr []"
| "mapIdx f i (x # xs) =
     (case f i x of
        Inl e \<Rightarrow> Inl e
      | Inr y \<Rightarrow> (case mapIdx f (Suc i) xs of Inl e \<Rightarrow> Inl e | Inr ys \<Rightarrow> Inr (y # ys)))"

text \<open>
  The \<open>MAKE_PICK\<close> case of \<open>draftReducer\<close>; \<open>now\<close> is the value of \<open>new Date()\<close>.
\<close>

definition makePick :: "DraftState \<Rightarrow> DraftPlayer \<Rightarrow> Date \<Rightarrow> error + DraftState" where
  "makePick state plr now =
     (case arrayGet (draftOrder state) (currentPickIndex state) of
        None \<Rightarrow> Inr state
      | Some currentPick \<Rightarrow>
          if player currentPick \<noteq> None then Inr state
          else
            let newDraftOrder = (draftOrder state)
                  [currentPickIndex state := currentPick\<lparr>player := Some plr, timestamp := Some now\<rparr>]
            in case mapIdx (updateTeam state currentPick plr) 0 (teams state) of
                 Inl e \<Rightarrow> Inl e
               | Inr newTeams \<Rightarrow>
                   let newAvailablePlayers =
                         filter (\<lambda>p. playerId p \<noteq> playerId plr) (availablePlayers state);
                       nextPickIndex = currentPickIndex state + 1;
                       complete = (nextPickIndex \<ge> length (draftOrder state));
                       nextPick = arrayGet (draftOrder state) nextPickIndex
                   in Inr (state\<lparr>draftOrder := newDraftOrder,
                                 teams := newTeams,
                                 availablePlayers := newAvailablePlayers,
                                 currentPickIndex := nextPickIndex,
                                 isDraftComplete := complete,
                                 pickTimerRemaining :=
                                   (case leagueSettings state of
                                      None \<Rightarrow> 0 | Some ls \<Rightarrow> draftTimerSeconds ls),
                                 isTimerActive :=
                                   (case nextPick of None \<Rightarrow> False | Some np \<Rightarrow> isUserPick np)\<rparr>))"

text \<open>
  The \<open>AUTO_PICK\<close> case. The arguments of \<open>selectAutoPick\<close> are evaluated first, so
  \<open>null\<close> settings throw; \<open>selectAutoPick\<close> returns \<open>null\<close> on an empty pool before it
  reads the roster, and otherwise throws on an \<open>undefined\<close> roster.
\<close>

definition autoPick :: "DraftState \<Rightarrow> Date \<Rightarrow> error + DraftState" where
  "autoPick state now =
     (case arrayGet (draftOrder state) (currentPickIndex state) of
        None \<Rightarrow> Inr state
      | Some currentPick \<Rightarrow>
          if player currentPick \<noteq> None then Inr state
          else
            (case leagueSettings state of
               None \<Rightarrow> Inl TypeError
             | Some ls \<Rightarrow>
                 if length (availablePlayers state) = 0 then Inr state
                 else
                   (case arrayGetInt (teams state) (teamIndex currentPick) of
                      None \<Rightarrow> Inl TypeError
                    | Some team \<Rightarrow>
                        (case selectAutoPick (availablePlayers state) team (rosterConfig ls) of
                           None \<Rightarrow> Inr state
                         | Some plr \<Rightarrow> makePick state plr now))))"

section \<open>Auxiliary notions for the statements\<close>

text \<open>The number of calls, in a run of assignments, that returned a position.\<close>

definition successes :: "Position option list \<Rightarrow> nat" where
  "successes rs = length (filter (\<lambda>r. r \<noteq> None) rs)"

text \<open>
  The picks of round \<open>r\<close> in closed form: pick \<open>j\<close> of the round has overall number
  \<open>(r - 1) * numTeams + j\<close>.
\<close>

definition snakeRound :: "int \<Rightarrow> int \<Rightarrow> int \<Rightarrow> DraftPick list" where
  "snakeRound nT u r = map (\<lambda>j. newDraftPick nT u r j ((r - 1) * nT + j)) [1..nT]"

text \<open>A player of lowest ADP in a list.\<close>

definition lowestADP :: "DraftPlayer \<Rightarrow> DraftPlayer list \<Rightarrow> bool" where
  "lowestADP p xs = (p \<in> set xs \<and> (\<forall>q \<in> set xs. espnADP p \<le> espnADP q))"

text \<open>The candidate set that \<open>selectCPUPick\<close> scores.\<close>

definition cpuCandidates :: "DraftPlayer list \<Rightarrow> TeamRoster \<Rightarrow> RosterConfig \<Rightarrow> DraftPlayer list" where
  "cpuCandidates avail roster cfg =
     (if hasNeeds (hasCriticalPositionalNeeds roster cfg) \<and> draftMoreThanHalfComplete roster cfg
         \<and> filter (fillsCritical (criticalPositions (hasCriticalPositionalNeeds roster cfg))) avail \<noteq> []
      then filter (fillsCritical (criticalPositions (hasCriticalPositionalNeeds roster cfg))) avail
      else avail)"

text \<open>
  \<open>selectCPUPick\<close> with the outcomes of the scoring calls as a parameter: \<open>sc i p\<close> is
  the number that the call of \<open>scorePlayerForCPU\<close> for the \<open>i\<close>-th candidate \<open>p\<close>
  returned (a finite number), however the arithmetic that produced it was rounded. Everything
  else is the body of \<open>selectCPUPick\<close>, which is the instance with the scores of the
  model above.
\<close>

definition selectCPUPickBy ::
  "(nat \<Rightarrow> DraftPlayer \<Rightarrow> real) \<Rightarrow> DraftPlayer list \<Rightarrow> TeamRoster \<Rightarrow> RosterConfig
     \<Rightarrow> DraftPlayer option" where
  "selectCPUPickBy sc avail roster cfg =
     (if length avail = 0 then None
      else
        let crit = hasCriticalPositionalNeeds roster cfg;
            needBasedPlayers = filter (fillsCritical (criticalPositions crit)) avail;
            candidatePlayers =
              (if hasNeeds crit \<and> draftMoreThanHalfComplete roster cfg
                  \<and> length needBasedPlayers > 0
               then needBasedPlayers else avail);
            scoredPlayers = map (\<lambda>(i, p). (p, sc i p)) (enumerate 0 candidatePlayers);
            sorted = sort_key (\<lambda>sp. - snd sp) scoredPlayers
        in case sorted of [] \<Rightarrow> None | sp # _ \<Rightarrow> Some (fst sp))"

text \<open>
  The owning team after a pick, and the team list after a pick, when the league settings
  are set.
\<close>

definition pickedTeam :: "DraftPlayer \<Rightarrow> RosterConfig \<Rightarrow> TeamRoster \<Rightarrow> TeamRoster" where
  "pickedTeam plr cfg team = snd (assignPlayerToRoster plr (team\<lparr>picks := picks team @ [plr]\<rparr>) cfg)"

definition newTeamsOf :: "DraftState \<Rightarrow> DraftPick \<Rightarrow> DraftPlayer \<Rightarrow> RosterConfig \<Rightarrow> TeamRoster list" where
  "newTeamsOf state cp plr cfg =
     map (\<lambda>(i, team). if int i \<noteq> teamIndex cp then team else pickedTeam plr cfg team)
       (enumerate 0 (teams state))"

section \<open>Example data\<close>

text \<open>
  Players, rosters, configurations and draft states for the concrete instances below. The
  engine reads a player's identifier, parsed positions and ADP only; the other fields of
  the example players carry no information.
\<close>

definition examplePlayer :: "string \<Rightarrow> Position list \<Rightarrow> real \<Rightarrow> DraftPlayer" where
  "examplePlayer pid ps adp =
     \<lparr>playerId = pid, skaterFullName = pid, teamAbbrevs = ''EDM'', positionCode = [],
      positions = ps, espnADP = adp, espnPercentOwned = 0, espnTotalRanking = 0\<rparr>"

definition exampleRoster :: "int \<Rightarrow> DraftPlayer list \<Rightarrow> FilledPositions \<Rightarrow> TeamRoster" where
  "exampleRoster idx ps filled =
     \<lparr>TeamRoster.teamIndex = idx, teamName = ''Team'', isUser = False, picks = ps,
      filledPositions = filled\<rparr>"

definition noneFilled :: FilledPositions where
  "noneFilled = (\<lambda>pos. 0)"

definition exampleConfigCD :: RosterConfig where
  "exampleConfigCD = noneFilled(C := 1, D := 1)"

definition examplePool :: "DraftPlayer list" where
  "examplePool = [examplePlayer ''g1'' [G] 1, examplePlayer ''d1'' [D] 3, examplePlayer ''c1'' [C] 5]"

definition exampleConfigG2 :: RosterConfig where
  "exampleConfigG2 = noneFilled(C := 2, D := 2, G := 2)"

definition exampleGoalie :: DraftPlayer where
  "exampleGoalie = examplePlayer ''g2'' [G] 40"

definition rosterOneGoalie :: TeamRoster where
  "rosterOneGoalie = exampleRoster 0 [examplePlayer ''g1'' [G] 1] (noneFilled(G := 1))"

definition exampleConfigCG :: RosterConfig where
  "exampleConfigCG = noneFilled(C := 1, G := 1)"

definition rosterCentreTaken :: TeamRoster where
  "rosterCentreTaken = exampleRoster 1 [examplePlayer ''c0'' [C] 2] (noneFilled(C := 1))"

definition exampleCentre :: DraftPlayer where
  "exampleCentre = examplePlayer ''c9'' [C] 5"

definition exampleLateGoalie :: DraftPlayer where
  "exampleLateGoalie = examplePlayer ''g9'' [G] 100"

definition exampleConfigBench :: RosterConfig where
  "exampleConfigBench = noneFilled(C := 1, D := 1, G := 1, BENCH := 2)"

definition rosterNeedsGoalie :: TeamRoster where
  "rosterNeedsGoalie =
     exampleRoster 1
       [examplePlayer ''c0'' [C] 2, examplePlayer ''d0'' [D] 4, examplePlayer ''c5'' [C] 7]
       (noneFilled(C := 1, D := 1, BENCH := 1))"

definition exampleSettings :: LeagueSettings where
  "exampleSettings =
     \<lparr>numTeams = 2, draftFormat = snake, userDraftPosition = 1, draftTimerSeconds = 60,
      rosterConfig = exampleConfigCD\<rparr>"

definition exampleDraft :: DraftState where
  "exampleDraft =
     \<lparr>leagueSettings = Some exampleSettings,
      allPlayers = examplePool,
      availablePlayers = examplePool,
      draftOrder = generateSnakeDraftOrder 2 2 1,
      currentPickIndex = 0,
      teams = [exampleRoster 0 [] noneFilled, exampleRoster 1 [] noneFilled],
      pickTimerRemaining = 60,
      isTimerActive = True,
      currentTab = AvailableTab,
      isDraftStarted = True,
      isDraftComplete = False\<rparr>"

definition exampleAfterFirstPick :: DraftState where
  "exampleAfterFirstPick =
     \<lparr>leagueSettings = Some exampleSettings,
      allPlayers = examplePool,
      availablePlayers = examplePool,
      draftOrder = [(newDraftPick 2 1 1 1 1)\<lparr>player := Some exampleCentre, timestamp := Some 0\<rparr>,
                    newDraftPick 2 1 1 2 2, newDraftPick 2 1 2 1 3, newDraftPick 2 1 2 2 4],
      currentPickIndex = 1,
      teams = [exampleRoster 0 [exampleCentre] (noneFilled(C := 1)), exampleRoster 1 [] noneFilled],
      pickTimerRemaining = 60,
      isTimerActive = False,
      currentTab = AvailableTab,
      isDraftStarted = True,
      isDraftComplete = False\<rparr>"

definition exampleTeamOneFull :: DraftState where
  "exampleTeamOneFull =
     \<lparr>leagueSettings = Some exampleSettings,
      allPlayers = examplePool,
      availablePlayers = [examplePlayer ''g1'' [G] 1, examplePlayer ''c1'' [C] 5],
      draftOrder = [(newDraftPick 2 1 1 1 1)\<lparr>player := Some exampleCentre, timestamp := Some 0\<rparr>,
                    (newDraftPick 2 1 1 2 2)\<lparr>player := Some (examplePlayer ''d1'' [D] 3),
                                              timestamp := Some 1\<rparr>,
                    newDraftPick 2 1 2 1 3, newDraftPick 2 1 2 2 4],
      currentPickIndex = 2,
      teams = [exampleRoster 0 [exampleCentre] (noneFilled(C := 1)),
               exampleRoster 1 [examplePlayer ''d1'' [D] 3] (noneFilled(D := 1))],
      pickTimerRemaining = 60,
      isTimerActive = False,
      currentTab = AvailableTab,
      isDraftStarted = True,
      isDraftComplete = False\<rparr>"

definition exampleSecondDefender :: DraftPlayer where
  "exampleSecondDefender = examplePlayer ''d2'' [D] 6"

definition exampleAfterFullPick :: DraftState where
  "exampleAfterFullPick =
     \<lparr>leagueSettings = Some exampleSettings,
      allPlayers = examplePool,
      availablePlayers = [examplePlayer ''g1'' [G] 1, examplePlayer ''c1'' [C] 5],
      draftOrder = [(newDraftPick 2 1 1 1 1)\<lparr>player := Some exampleCentre, timestamp := Some 0\<rparr>,
                    (newDraftPick 2 1 1 2 2)\<lparr>player := Some (examplePlayer ''d1'' [D] 3),
                                              timestamp := Some 1\<rparr>,
                    (newDraftPick 2 1 2 1 3)\<lparr>player := Some exampleSecondDefender,
                                              timestamp := Some 2\<rparr>,
                    newDraftPick 2 1 2 2 4],
      currentPickIndex = 3,
      teams = [exampleRoster 0 [exampleCentre] (noneFilled(C := 1)),
               exampleRoster 1 [examplePlayer ''d1'' [D] 3, exampleSecondDefender]
                 (noneFilled(D := 1))],
      pickTimerRemaining = 60,
      isTimerActive = True,
      currentTab = AvailableTab,
      isDraftStarted = True,
      isDraftComplete = False\<rparr>"

definition exampleStaleSlot :: DraftState where
  "exampleStaleSlot = exampleAfterFirstPick\<lparr>currentPickIndex := 0\<rparr>"

definition exampleEmptyPool :: DraftState where
  "exampleEmptyPool = exampleDraft\<lparr>availablePlayers := []\<rparr>"

section \<open>Roster assignment: the priority order\<close>

lemma forward_iff: "list_ex (\<lambda>p. p \<in> set [C, LW, RW]) (positions plr) = isForward plr"
  by (auto simp: list_ex_iff isForward_def)

lemma primary_available:
  "pos \<in> set primaryPositions \<Longrightarrow>
   (pos \<in> set (getAvailablePositionsForPlayer plr filled cfg)) =
     (pos \<in> set (positions plr) \<and> hasCapacity filled cfg pos)"
  unfolding getAvailablePositionsForPlayer_def positionTypes_def canFillPosition_def
    hasCapacity_def primaryPositions_def
  by (elim set_ConsD[elim_format] disjE) simp_all

lemma F_available:
  "(F \<in> set (getAvailablePositionsForPlayer plr filled cfg)) =
     (isForward plr \<and> hasCapacity filled cfg F)"
  unfolding getAvailablePositionsForPlayer_def positionTypes_def canFillPosition_def
    hasCapacity_def forward_iff
  by simp

lemma UTIL_available:
  "(UTIL \<in> set (getAvailablePositionsForPlayer plr filled cfg)) = hasCapacity filled cfg UTIL"
  unfolding getAvailablePositionsForPlayer_def positionTypes_def canFillPosition_def
    hasCapacity_def
  by simp

lemma BENCH_available:
  "(BENCH \<in> set (getAvailablePositionsForPlayer plr filled cfg)) = hasCapacity filled cfg BENCH"
  unfolding getAvailablePositionsForPlayer_def positionTypes_def canFillPosition_def
    hasCapacity_def
  by simp

lemma find_primary:
  "List.find (\<lambda>pos. pos \<in> set (positions plr)
        \<and> pos \<in> set (getAvailablePositionsForPlayer plr filled cfg)) primaryPositions =
   List.find (\<lambda>pos. pos \<in> set (positions plr) \<and> hasCapacity filled cfg pos) primaryPositions"
  by (rule find_cong) (simp_all add: primary_available)

lemma spec_assign_None: "(spec_assign plr filled cfg = None) = noSlot plr filled cfg"
  unfolding spec_assign_def noSlot_def by simp

lemma available_Nil:
  "(getAvailablePositionsForPlayer plr filled cfg = []) = noSlot plr filled cfg"
  unfolding getAvailablePositionsForPlayer_def positionTypes_def canFillPosition_def
    forward_iff noSlot_def hasCapacity_def
  by simp

lemma case_hd: "xs \<noteq> [] \<Longrightarrow> (case xs of [] \<Rightarrow> a | x # _ \<Rightarrow> f x) = f (hd xs)"
  by (cases xs) simp_all

lemma assign_eq:
  "assignPlayerToRoster plr roster cfg =
     (case spec_assign plr (filledPositions roster) cfg of
        None \<Rightarrow> (None, roster) | Some pos \<Rightarrow> (Some pos, incrementFilled roster pos))"
proof (cases "getAvailablePositionsForPlayer plr (filledPositions roster) cfg = []")
  case True
  then show ?thesis using available_Nil[of plr "filledPositions roster" cfg]
      spec_assign_None[of plr "filledPositions roster" cfg]
    by (simp add: assignPlayerToRoster_def)
next
  case False
  have ne: "\<not> noSlot plr (filledPositions roster) cfg"
    using False available_Nil[of plr "filledPositions roster" cfg] by simp
  have "assignPlayerToRoster plr roster cfg =
     (case List.find (\<lambda>pos. pos \<in> set (positions plr)
               \<and> hasCapacity (filledPositions roster) cfg pos) primaryPositions of
        Some pos \<Rightarrow> (Some pos, incrementFilled roster pos)
      | None \<Rightarrow>
         if isForward plr \<and> hasCapacity (filledPositions roster) cfg F
         then (Some F, incrementFilled roster F)
         else if hasCapacity (filledPositions roster) cfg UTIL
              then (Some UTIL, incrementFilled roster UTIL)
         else if hasCapacity (filledPositions roster) cfg BENCH
              then (Some BENCH, incrementFilled roster BENCH)
         else (Some (hd (getAvailablePositionsForPlayer plr (filledPositions roster) cfg)),
               incrementFilled roster
                 (hd (getAvailablePositionsForPlayer plr (filledPositions roster) cfg))))"
    unfolding assignPlayerToRoster_def Let_def case_hd[OF False] find_primary forward_iff
      F_available UTIL_available BENCH_available
    by (simp cong: option.case_cong if_cong)
  note body = this
  let ?fnd = "List.find (\<lambda>pos. pos \<in> set (positions plr)
               \<and> hasCapacity (filledPositions roster) cfg pos) primaryPositions"
  have findc: "?fnd =
     (if C \<in> set (positions plr) \<and> hasCapacity (filledPositions roster) cfg C then Some C
      else if LW \<in> set (positions plr) \<and> hasCapacity (filledPositions roster) cfg LW then Some LW
      else if RW \<in> set (positions plr) \<and> hasCapacity (filledPositions roster) cfg RW then Some RW
      else if D \<in> set (positions plr) \<and> hasCapacity (filledPositions roster) cfg D then Some D
      else if G \<in> set (positions plr) \<and> hasCapacity (filledPositions roster) cfg G then Some G
      else None)"
    by (simp add: primaryPositions_def)
  show ?thesis
  proof (cases ?fnd)
    case (Some pos)
    then have "spec_assign plr (filledPositions roster) cfg = Some pos"
      unfolding findc spec_assign_def by (simp split: if_splits)
    then show ?thesis using body Some by simp
  next
    case None
    then have prim: "(C \<in> set (positions plr) \<and> hasCapacity (filledPositions roster) cfg C) = False"
      "(LW \<in> set (positions plr) \<and> hasCapacity (filledPositions roster) cfg LW) = False"
      "(RW \<in> set (positions plr) \<and> hasCapacity (filledPositions roster) cfg RW) = False"
      "(D \<in> set (positions plr) \<and> hasCapacity (filledPositions roster) cfg D) = False"
      "(G \<in> set (positions plr) \<and> hasCapacity (filledPositions roster) cfg G) = False"
      unfolding findc by (simp_all split: if_splits)
    have rest: "(isForward plr \<and> hasCapacity (filledPositions roster) cfg F)
        \<or> hasCapacity (filledPositions roster) cfg UTIL
        \<or> hasCapacity (filledPositions roster) cfg BENCH"
      using ne unfolding noSlot_def prim by blast
    have "spec_assign plr (filledPositions roster) cfg =
       (if isForward plr \<and> hasCapacity (filledPositions roster) cfg F then Some F
        else if hasCapacity (filledPositions roster) cfg UTIL then Some UTIL
        else if hasCapacity (filledPositions roster) cfg BENCH then Some BENCH
        else None)"
      unfolding spec_assign_def by (simp only: prim if_False)
    then show ?thesis using body None rest by auto
  qed
qed

text \<open>
  Claim C1. For every player, roster and configuration, \<open>assignPlayerToRoster\<close> returns
  the first of C, LW, RW, D, G that the player holds and that is below capacity, else F
  for a forward when F is below capacity, else UTIL, else BENCH, each when below capacity;
  it returns no position exactly when none of these slots has capacity for the player.
  A player holding C and LW with C full and LW open is assigned LW.
\<close>

theorem assignPlayerToRoster_priority:
  "fst (assignPlayerToRoster plr roster cfg) = spec_assign plr (filledPositions roster) cfg
   \<and> ((fst (assignPlayerToRoster plr roster cfg) = None) = noSlot plr (filledPositions roster) cfg)
   \<and> (C \<in> set (positions plr) \<and> LW \<in> set (positions plr)
        \<and> \<not> hasCapacity (filledPositions roster) cfg C \<and> hasCapacity (filledPositions roster) cfg LW
       \<longrightarrow> fst (assignPlayerToRoster plr roster cfg) = Some LW)"
proof -
  have eq: "fst (assignPlayerToRoster plr roster cfg) = spec_assign plr (filledPositions roster) cfg"
    by (simp add: assign_eq split: option.splits)
  have "C \<in> set (positions plr) \<and> LW \<in> set (positions plr)
        \<and> \<not> hasCapacity (filledPositions roster) cfg C \<and> hasCapacity (filledPositions roster) cfg LW
       \<longrightarrow> spec_assign plr (filledPositions roster) cfg = Some LW"
    by (simp add: spec_assign_def)
  then show ?thesis
    unfolding eq spec_assign_None by simp
qed

text \<open>The C and LW example on a concrete roster: one C slot, taken, and one LW slot, open.\<close>

theorem assignPlayerToRoster_priority_witness:
  "C \<in> set (positions (examplePlayer ''p1'' [C, LW] 10))
   \<and> LW \<in> set (positions (examplePlayer ''p1'' [C, LW] 10))
   \<and> \<not> hasCapacity (filledPositions (exampleRoster 0 [] (noneFilled(C := 1))))
          (noneFilled(C := 1, LW := 1)) C
   \<and> hasCapacity (filledPositions (exampleRoster 0 [] (noneFilled(C := 1))))
          (noneFilled(C := 1, LW := 1)) LW
   \<and> fst (assignPlayerToRoster (examplePlayer ''p1'' [C, LW] 10)
            (exampleRoster 0 [] (noneFilled(C := 1))) (noneFilled(C := 1, LW := 1))) = Some LW"
proof -
  have hyps: "C \<in> set (positions (examplePlayer ''p1'' [C, LW] 10))
     \<and> LW \<in> set (positions (examplePlayer ''p1'' [C, LW] 10))
     \<and> \<not> hasCapacity (filledPositions (exampleRoster 0 [] (noneFilled(C := 1))))
          (noneFilled(C := 1, LW := 1)) C
     \<and> hasCapacity (filledPositions (exampleRoster 0 [] (noneFilled(C := 1))))
          (noneFilled(C := 1, LW := 1)) LW"
    by (simp add: examplePlayer_def exampleRoster_def noneFilled_def hasCapacity_def)
  from assignPlayerToRoster_priority
          [of "examplePlayer ''p1'' [C, LW] 10" "exampleRoster 0 [] (noneFilled(C := 1))"
              "noneFilled(C := 1, LW := 1)"]
  show ?thesis using hyps by blast
qed

section \<open>Roster assignment: the filled-counts\<close>

lemma spec_assign_capacity:
  "spec_assign plr filled cfg = Some pos \<Longrightarrow> filled pos < cfg pos"
  unfolding spec_assign_def hasCapacity_def by (simp split: if_splits)

lemma totalFilled_increment:
  "totalFilled (filled(pos := filled pos + 1)) = totalFilled filled + 1"
  unfolding totalFilled_def allPositions_def by (cases pos) simp_all

lemma filled_incrementFilled:
  "filledPositions (incrementFilled roster pos) =
     (filledPositions roster)(pos := filledPositions roster pos + 1)"
  by (simp add: incrementFilled_def)

lemma assign_total:
  "totalFilled (filledPositions (snd (assignPlayerToRoster plr roster cfg))) =
     totalFilled (filledPositions roster)
     + (if fst (assignPlayerToRoster plr roster cfg) = None then 0 else 1)"
  by (simp add: assign_eq filled_incrementFilled totalFilled_increment split: option.splits)

lemma assign_within_capacity:
  assumes "\<forall>pos. filledPositions roster pos \<le> cfg pos"
  shows "\<forall>pos. filledPositions (snd (assignPlayerToRoster plr roster cfg)) pos \<le> cfg pos"
proof (cases "spec_assign plr (filledPositions roster) cfg")
  case None
  then show ?thesis using assms by (simp add: assign_eq)
next
  case (Some q)
  from spec_assign_capacity[OF Some] have "filledPositions roster q + 1 \<le> cfg q" by simp
  then show ?thesis using assms Some by (simp add: assign_eq filled_incrementFilled)
qed

lemma assignMany_Cons:
  "assignMany (p # ps) roster cfg =
     (fst (assignPlayerToRoster p roster cfg)
        # fst (assignMany ps (snd (assignPlayerToRoster p roster cfg)) cfg),
      snd (assignMany ps (snd (assignPlayerToRoster p roster cfg)) cfg))"
  by (simp split: prod.splits)

lemma assignMany_total:
  "totalFilled (filledPositions (snd (assignMany ps roster cfg))) =
     totalFilled (filledPositions roster) + int (successes (fst (assignMany ps roster cfg)))"
proof (induction ps arbitrary: roster)
  case Nil
  then show ?case by (simp add: successes_def)
next
  case (Cons p ps)
  show ?case
    unfolding assignMany_Cons snd_conv fst_conv
      Cons.IH[of "snd (assignPlayerToRoster p roster cfg)"] assign_total
    by (simp add: successes_def)
qed

lemma assignMany_length: "length (fst (assignMany ps roster cfg)) = length ps"
proof (induction ps arbitrary: roster)
  case Nil
  then show ?case by simp
next
  case (Cons p ps)
  show ?case unfolding assignMany_Cons fst_conv using Cons.IH by simp
qed

lemma assignMany_within_capacity:
  "\<forall>pos. filledPositions roster pos \<le> cfg pos \<Longrightarrow>
   \<forall>pos. filledPositions (snd (assignMany ps roster cfg)) pos \<le> cfg pos"
proof (induction ps arbitrary: roster)
  case Nil
  then show ?case by simp
next
  case (Cons p ps)
  have "\<forall>pos. filledPositions (snd (assignPlayerToRoster p roster cfg)) pos \<le> cfg pos"
    using assign_within_capacity[OF Cons.prems, of p] .
  from Cons.IH[OF this] show ?case unfolding assignMany_Cons snd_conv .
qed

text \<open>
  Claim C9, amended. A call of \<open>assignPlayerToRoster\<close> that returns a position
  increments that position's filled-count by exactly 1 and changes nothing else; a call
  that returns no position leaves the roster as it is. So after the calls for a list of
  players, from filled-counts that sum to zero, the sum of the filled-counts is the number
  of calls that returned a position, which is the number of calls when all of them did.
  Filled-counts that are within capacity before a call are within capacity after it.
\<close>

theorem assignPlayerToRoster_counts:
  "(case fst (assignPlayerToRoster plr roster cfg) of
      None \<Rightarrow> snd (assignPlayerToRoster plr roster cfg) = roster
    | Some pos \<Rightarrow>
        snd (assignPlayerToRoster plr roster cfg) =
          roster\<lparr>filledPositions := (filledPositions roster)(pos := filledPositions roster pos + 1)\<rparr>)
   \<and> (totalFilled (filledPositions roster) = 0 \<longrightarrow>
        totalFilled (filledPositions (snd (assignMany ps roster cfg)))
          = int (successes (fst (assignMany ps roster cfg))))
   \<and> (totalFilled (filledPositions roster) = 0
        \<and> list_all (\<lambda>r. r \<noteq> None) (fst (assignMany ps roster cfg)) \<longrightarrow>
        totalFilled (filledPositions (snd (assignMany ps roster cfg))) = int (length ps))
   \<and> ((\<forall>pos. filledPositions roster pos \<le> cfg pos) \<longrightarrow>
        (\<forall>pos. filledPositions (snd (assignPlayerToRoster plr roster cfg)) pos \<le> cfg pos)
        \<and> (\<forall>pos. filledPositions (snd (assignMany ps roster cfg)) pos \<le> cfg pos))"
proof -
  have one: "(case fst (assignPlayerToRoster plr roster cfg) of
      None \<Rightarrow> snd (assignPlayerToRoster plr roster cfg) = roster
    | Some pos \<Rightarrow>
        snd (assignPlayerToRoster plr roster cfg) =
          roster\<lparr>filledPositions := (filledPositions roster)(pos := filledPositions roster pos + 1)\<rparr>)"
    by (simp add: assign_eq incrementFilled_def split: option.splits)
  have all_ok: "list_all (\<lambda>r. r \<noteq> None) (fst (assignMany ps roster cfg)) \<Longrightarrow>
     successes (fst (assignMany ps roster cfg)) = length ps"
    using assignMany_length[of ps roster cfg]
    by (simp add: successes_def list_all_iff)
  show ?thesis
    using one assignMany_total[of ps roster cfg] all_ok
      assign_within_capacity[of roster cfg plr] assignMany_within_capacity[of roster cfg ps]
    by simp
qed

lemma ex_assign1: "assignPlayerToRoster (examplePlayer ''c1'' [C] 1) (exampleRoster 0 [] noneFilled) exampleConfigCD
   = (Some C, exampleRoster 0 [] (noneFilled(C := 1)))"
  by (simp add: assign_eq spec_assign_def hasCapacity_def isForward_def examplePlayer_def
      exampleRoster_def noneFilled_def exampleConfigCD_def incrementFilled_def)

lemma ex_assign2: "assignPlayerToRoster (examplePlayer ''c2'' [C] 2) (exampleRoster 0 [] (noneFilled(C := 1))) exampleConfigCD
   = (None, exampleRoster 0 [] (noneFilled(C := 1)))"
  by (simp add: assign_eq spec_assign_def hasCapacity_def isForward_def examplePlayer_def
      exampleRoster_def noneFilled_def exampleConfigCD_def incrementFilled_def)

text \<open>
  A centre and a defenceman drafted into a roster with one C slot and one D slot: both
  calls return a position, and the filled-counts sum to 2.
\<close>

theorem assignPlayerToRoster_counts_witness:
  "totalFilled (filledPositions (exampleRoster 0 [] noneFilled)) = 0
   \<and> list_all (\<lambda>r. r \<noteq> None)
        (fst (assignMany [examplePlayer ''c1'' [C] 1, examplePlayer ''d1'' [D] 3]
               (exampleRoster 0 [] noneFilled) exampleConfigCD))
   \<and> (\<forall>pos. filledPositions (exampleRoster 0 [] noneFilled) pos \<le> exampleConfigCD pos)
   \<and> totalFilled (filledPositions (snd (assignMany
         [examplePlayer ''c1'' [C] 1, examplePlayer ''d1'' [D] 3]
         (exampleRoster 0 [] noneFilled) exampleConfigCD))) = 2
   \<and> (\<forall>pos. filledPositions (snd (assignMany
         [examplePlayer ''c1'' [C] 1, examplePlayer ''d1'' [D] 3]
         (exampleRoster 0 [] noneFilled) exampleConfigCD)) pos \<le> exampleConfigCD pos)"
proof -
  have h1: "totalFilled (filledPositions (exampleRoster 0 [] noneFilled)) = 0"
    by (simp add: exampleRoster_def noneFilled_def totalFilled_def allPositions_def)
  have d1: "assignPlayerToRoster (examplePlayer ''d1'' [D] 3)
              (exampleRoster 0 [] (noneFilled(C := 1))) exampleConfigCD
            = (Some D, exampleRoster 0 [] (noneFilled(C := 1, D := 1)))"
    by (simp add: assign_eq spec_assign_def hasCapacity_def isForward_def examplePlayer_def
        exampleRoster_def noneFilled_def exampleConfigCD_def incrementFilled_def)
  have h2: "list_all (\<lambda>r. r \<noteq> None)
        (fst (assignMany [examplePlayer ''c1'' [C] 1, examplePlayer ''d1'' [D] 3]
               (exampleRoster 0 [] noneFilled) exampleConfigCD))"
    by (simp add: ex_assign1 d1)
  have h3: "\<forall>pos. filledPositions (exampleRoster 0 [] noneFilled) pos \<le> exampleConfigCD pos"
    by (simp add: exampleRoster_def noneFilled_def exampleConfigCD_def)
  from assignPlayerToRoster_counts
         [of "examplePlayer ''c1'' [C] 1" "exampleRoster 0 [] noneFilled" exampleConfigCD
             "[examplePlayer ''c1'' [C] 1, examplePlayer ''d1'' [D] 3]"]
  show ?thesis using h1 h2 h3 by simp
qed

text \<open>
  Claim C9 as stated fails on a full roster: with one C slot and one D slot, the call for
  a second centre returns no position and increments nothing, so after two calls the
  filled-counts sum to 1.
\<close>

theorem assignPlayerToRoster_counts_counterexample:
  "fst (assignPlayerToRoster (examplePlayer ''c2'' [C] 2)
          (exampleRoster 0 [] (noneFilled(C := 1))) exampleConfigCD) = None
   \<and> snd (assignPlayerToRoster (examplePlayer ''c2'' [C] 2)
          (exampleRoster 0 [] (noneFilled(C := 1))) exampleConfigCD)
       = exampleRoster 0 [] (noneFilled(C := 1))
   \<and> totalFilled (filledPositions (exampleRoster 0 [] noneFilled)) = 0
   \<and> length [examplePlayer ''c1'' [C] 1, examplePlayer ''c2'' [C] 2] = 2
   \<and> totalFilled (filledPositions (snd (assignMany
         [examplePlayer ''c1'' [C] 1, examplePlayer ''c2'' [C] 2]
         (exampleRoster 0 [] noneFilled) exampleConfigCD))) = 1"
  by (simp add: ex_assign1 ex_assign2)
     (simp add: exampleRoster_def noneFilled_def totalFilled_def allPositions_def)

section \<open>The snake draft order\<close>

lemma pickLoop_closed:
  "pickLoop nT u r k (acc, ov) =
     (acc @ map (\<lambda>j. newDraftPick nT u r j (ov + (j - k))) [k..nT],
      ov + (if k \<le> nT then nT + 1 - k else 0))"
proof (induction nT u r k "(acc, ov)" arbitrary: acc ov rule: pickLoop.induct)
  case (1 nT u r k acc ov)
  show ?case
  proof (cases "k \<le> nT")
    case True
    have m: "map (\<lambda>j. newDraftPick nT u r j (ov + 1 + (j - (k + 1)))) [k + 1..nT]
           = map (\<lambda>j. newDraftPick nT u r j (ov + (j - k))) [k + 1..nT]"
      by (rule map_cong) (simp_all add: algebra_simps)
    show ?thesis
      using True "1.hyps"[OF True] m
      by (subst pickLoop.simps) (simp add: upto_rec1[of k nT])
  next
    case False
    then show ?thesis by (subst pickLoop.simps) simp
  qed
qed

lemma roundLoop_closed:
  "0 \<le> nT \<Longrightarrow> roundLoop nT nR u r (acc, ov) =
     (acc @ concat (map (\<lambda>r'. map (\<lambda>j. newDraftPick nT u r' j (ov + (r' - r) * nT + (j - 1))) [1..nT]) [r..nR]),
      ov + (if r \<le> nR then (nR + 1 - r) * nT else 0))"
proof (induction nT nR u r "(acc, ov)" arbitrary: acc ov rule: roundLoop.induct)
  case (1 nT nR u r acc ov)
  show ?case
  proof (cases "r \<le> nR")
    case True
    have pl: "pickLoop nT u r 1 (acc, ov) =
       (acc @ map (\<lambda>j. newDraftPick nT u r j (ov + (j - 1))) [1..nT], ov + nT)"
      using "1.prems" by (auto simp: pickLoop_closed)
    have m: "map (\<lambda>r'. map (\<lambda>j. newDraftPick nT u r' j (ov + nT + (r' - (r + 1)) * nT + (j - 1))) [1..nT]) [r + 1..nR]
         = map (\<lambda>r'. map (\<lambda>j. newDraftPick nT u r' j (ov + (r' - r) * nT + (j - 1))) [1..nT]) [r + 1..nR]"
      by (intro map_cong refl) (simp add: algebra_simps)
    show ?thesis
      using True "1.hyps"[OF True pl "1.prems"] m
      apply (subst roundLoop.simps)
      apply (simp add: pl upto_rec1[of r nR] algebra_simps)
      done
  next
    case False
    then show ?thesis by (subst roundLoop.simps) simp
  qed
qed

lemma generate_closed:
  "0 \<le> nT \<Longrightarrow> generateSnakeDraftOrder nT nR u = concat (map (snakeRound nT u) [1..nR])"
proof -
  assume nT: "0 \<le> nT"
  have e: "\<And>r' j. 1 + (r' - 1) * nT + (j - 1) = (r' - 1) * nT + j" by simp
  have "(\<lambda>r'. map (\<lambda>j. newDraftPick nT u r' j (1 + (r' - 1) * nT + (j - 1))) [1..nT])
      = snakeRound nT u"
    unfolding snakeRound_def e ..
  then show ?thesis
    unfolding generateSnakeDraftOrder_def roundLoop_closed[OF nT] by simp
qed

lemma length_concat_const:
  "(\<And>x. length (f x) = n) \<Longrightarrow> length (concat (map f xs)) = length xs * n"
  by (induction xs) simp_all

lemma generate_length:
  "0 \<le> nT \<Longrightarrow> 0 \<le> nR \<Longrightarrow> length (generateSnakeDraftOrder nT nR u) = nat (nT * nR)"
proof -
  assume nT: "0 \<le> nT" and nR: "0 \<le> nR"
  have "length (concat (map (snakeRound nT u) [1..nR])) = length [1..nR] * nat nT"
    by (rule length_concat_const) (simp add: snakeRound_def)
  then show ?thesis using nT nR
    by (simp add: generate_closed nat_mult_distrib mult.commute)
qed

lemma map_shift_upto: "map (\<lambda>j. a + j) [1..n] = [a + 1..a + n]"
  by (rule nth_equalityI) simp_all

lemma overall_round:
  "map overallPick (snakeRound nT u r) = [(r - 1) * nT + 1..(r - 1) * nT + nT]"
  unfolding snakeRound_def
  by (simp add: newDraftPick_def Let_def o_def map_shift_upto)

lemma upto_append_block:
  "0 \<le> m \<Longrightarrow> 0 \<le> k \<Longrightarrow> [1..m] @ [m + 1..m + k] = [1..m + (k::int)]"
proof (cases "m = 0")
  case True
  then show ?thesis by simp
next
  case False
  assume "0 \<le> m" "0 \<le> k"
  with False have "1 \<le> m" "m \<le> m + k" by simp_all
  then show ?thesis by (rule upto_split2[symmetric])
qed

lemma concat_blocks:
  assumes nT: "0 \<le> nT"
  shows "0 \<le> nR \<Longrightarrow>
   concat (map (\<lambda>r. [(r - 1) * nT + 1..(r - 1) * nT + nT]) [1..nR]) = [1..nR * nT]"
proof (induction nR rule: int_ge_induct)
  case base
  then show ?case by simp
next
  case (step i)
  let ?B = "\<lambda>r. [(r - 1) * nT + 1..(r - 1) * nT + nT]"
  have up: "[1..i + 1] = [1..i] @ [i + 1]"
    using step.hyps by (simp add: upto_rec2[of 1 "i + 1"])
  have "concat (map ?B [1..i + 1]) = concat (map ?B [1..i]) @ ?B (i + 1)"
    unfolding up by simp
  also have "\<dots> = [1..i * nT] @ [i * nT + 1..i * nT + nT]"
    unfolding step.IH by simp
  also have "\<dots> = [1..i * nT + nT]"
    using nT step.hyps by (intro upto_append_block) simp_all
  also have "i * nT + nT = (i + 1) * nT" by (simp add: algebra_simps)
  finally show ?case .
qed

lemma generate_overall:
  assumes "0 \<le> nT" "0 \<le> nR"
  shows "map overallPick (generateSnakeDraftOrder nT nR u) = [1..nT * nR]"
proof -
  have "map overallPick (generateSnakeDraftOrder nT nR u)
      = concat (map (\<lambda>r. map overallPick (snakeRound nT u r)) [1..nR])"
    by (simp add: generate_closed[OF assms(1)] map_concat o_def)
  also have "\<dots> = concat (map (\<lambda>r. [(r - 1) * nT + 1..(r - 1) * nT + nT]) [1..nR])"
    unfolding overall_round ..
  also have "\<dots> = [1..nR * nT]" using assms by (rule concat_blocks)
  finally show ?thesis by (simp add: mult.commute)
qed

lemma filter_round:
  "filter (\<lambda>p. round_no p = r) (snakeRound nT u r') = (if r' = r then snakeRound nT u r' else [])"
  unfolding snakeRound_def by (simp add: filter_map o_def newDraftPick_def Let_def)

lemma concat_pick_one:
  "distinct xs \<Longrightarrow> x \<in> set xs \<Longrightarrow>
   concat (map (\<lambda>y. if y = x then g y else []) xs) = g x"
proof (induction xs)
  case Nil
  then show ?case by simp
next
  case (Cons a xs)
  show ?case
  proof (cases "a = x")
    case True
    then have "x \<notin> set xs" using Cons.prems by simp
    then have "concat (map (\<lambda>y. if y = x then g y else []) xs) = []"
      by (induction xs) auto
    then show ?thesis using True by simp
  next
    case False
    then show ?thesis using Cons by simp
  qed
qed

lemma round_picks:
  assumes "0 \<le> nT" "1 \<le> r" "r \<le> nR"
  shows "filter (\<lambda>p. round_no p = r) (generateSnakeDraftOrder nT nR u) = snakeRound nT u r"
proof -
  have "filter (\<lambda>p. round_no p = r) (generateSnakeDraftOrder nT nR u)
      = concat (map (\<lambda>r'. if r' = r then snakeRound nT u r' else []) [1..nR])"
    by (simp add: generate_closed[OF assms(1)] filter_concat o_def filter_round)
  also have "\<dots> = snakeRound nT u r"
    using assms by (intro concat_pick_one) simp_all
  finally show ?thesis .
qed

lemma map_pred_upto: "map (\<lambda>j. j - 1) [1..n] = [0..n - 1]"
  by (rule nth_equalityI) simp_all

lemma map_descending_upto: "map (\<lambda>j. n - j) [1..n] = rev [0..n - 1]"
proof (rule nth_equalityI)
  show "length (map (\<lambda>j. n - j) [1..n]) = length (rev [0..n - 1])" by simp
next
  fix i assume "i < length (map (\<lambda>j. n - j) [1..n])"
  then have i: "int i < n" by simp
  then have "rev [0..n - 1] ! i = [0..n - 1] ! (length [0..n - 1] - Suc i)"
    by (intro rev_nth) simp
  also have "\<dots> = n - (1 + int i)" using i by (simp add: nat_diff_distrib' of_nat_diff)
  finally show "map (\<lambda>j. n - j) [1..n] ! i = rev [0..n - 1] ! i"
    using i by simp
qed

lemma teams_of_round:
  "map teamIndex (snakeRound nT u r) = (if r mod 2 = 0 then rev [0..nT - 1] else [0..nT - 1])"
  unfolding snakeRound_def
  by (simp add: newDraftPick_def Let_def o_def map_pred_upto map_descending_upto)

lemma roundTeams_generate:
  assumes "0 \<le> nT" "1 \<le> r" "r \<le> nR"
  shows "roundTeams (generateSnakeDraftOrder nT nR u) r
           = (if r mod 2 = 0 then rev [0..nT - 1] else [0..nT - 1])"
  unfolding roundTeams_def round_picks[OF assms] teams_of_round ..

lemma userPick_generate:
  assumes "0 \<le> nT" "p \<in> set (generateSnakeDraftOrder nT nR u)"
  shows "isUserPick p = (teamIndex p = u - 1)"
proof -
  from assms obtain r j where "p = newDraftPick nT u r j ((r - 1) * nT + j)"
    by (auto simp: generate_closed snakeRound_def)
  then show ?thesis by (simp add: newDraftPick_def Let_def)
qed

text \<open>
  Claim C2. For at least two teams and at least one round, \<open>generateSnakeDraftOrder\<close>
  returns \<open>numTeams * numRounds\<close> picks whose overall numbers are 1, 2, ...,
  \<open>numTeams * numRounds\<close> in this order; the teams of an odd round are 0, ...,
  \<open>numTeams - 1\<close> ascending and those of an even round the same descending, so each
  round's team sequence is the reverse of the previous round's; and every pick is flagged
  as the user's exactly when its team index is \<open>userPosition - 1\<close>. The result is a
  function of the three inputs.
\<close>

theorem generateSnakeDraftOrder_snake:
  assumes "2 \<le> nT" and "1 \<le> nR"
  shows "length (generateSnakeDraftOrder nT nR u) = nat (nT * nR)
    \<and> map overallPick (generateSnakeDraftOrder nT nR u) = [1..nT * nR]
    \<and> (\<forall>r. 1 \<le> r \<and> r \<le> nR \<longrightarrow>
          roundTeams (generateSnakeDraftOrder nT nR u) r
            = (if r mod 2 = 0 then rev [0..nT - 1] else [0..nT - 1]))
    \<and> (\<forall>r. 1 \<le> r \<and> r + 1 \<le> nR \<longrightarrow>
          roundTeams (generateSnakeDraftOrder nT nR u) (r + 1)
            = rev (roundTeams (generateSnakeDraftOrder nT nR u) r))
    \<and> (\<forall>p \<in> set (generateSnakeDraftOrder nT nR u). isUserPick p = (teamIndex p = u - 1))"
proof -
  have nT: "0 \<le> nT" and nR: "0 \<le> nR" using assms by simp_all
  have rt: "\<And>r. 1 \<le> r \<Longrightarrow> r \<le> nR \<Longrightarrow>
          roundTeams (generateSnakeDraftOrder nT nR u) r
            = (if r mod 2 = 0 then rev [0..nT - 1] else [0..nT - 1])"
    using roundTeams_generate[OF nT] by blast
  have snake: "\<And>r. 1 \<le> r \<Longrightarrow> r + 1 \<le> nR \<Longrightarrow>
          roundTeams (generateSnakeDraftOrder nT nR u) (r + 1)
            = rev (roundTeams (generateSnakeDraftOrder nT nR u) r)"
  proof -
    fix r :: int assume r: "1 \<le> r" "r + 1 \<le> nR"
    have par: "((r + 1) mod 2 = 0) = (r mod 2 \<noteq> 0)" by presburger
    show "roundTeams (generateSnakeDraftOrder nT nR u) (r + 1)
            = rev (roundTeams (generateSnakeDraftOrder nT nR u) r)"
      using r by (simp add: rt par)
  qed
  show ?thesis
    using generate_length[OF nT nR] generate_overall[OF nT nR] rt snake userPick_generate[OF nT]
    by blast
qed

text \<open>Four teams, two rounds: picks 1 to 8, teams 0, 1, 2, 3 then 3, 2, 1, 0.\<close>

theorem generateSnakeDraftOrder_snake_witness:
  "(2::int) \<le> 4 \<and> (1::int) \<le> 2
   \<and> length (generateSnakeDraftOrder 4 2 1) = 8
   \<and> map overallPick (generateSnakeDraftOrder 4 2 1) = [1, 2, 3, 4, 5, 6, 7, 8]
   \<and> roundTeams (generateSnakeDraftOrder 4 2 1) 1 = [0, 1, 2, 3]
   \<and> roundTeams (generateSnakeDraftOrder 4 2 1) 2 = [3, 2, 1, 0]"
proof -
  have h: "(2::int) \<le> 4" "(1::int) \<le> 2" by simp_all
  from generateSnakeDraftOrder_snake[OF h, of 1]
  have "length (generateSnakeDraftOrder 4 2 1) = nat (4 * 2)"
    and "map overallPick (generateSnakeDraftOrder 4 2 1) = [1..4 * 2]"
    and "roundTeams (generateSnakeDraftOrder 4 2 1) 1 = (if (1::int) mod 2 = 0 then rev [0..4 - 1] else [0..4 - 1])"
    and "roundTeams (generateSnakeDraftOrder 4 2 1) 2 = (if (2::int) mod 2 = 0 then rev [0..4 - 1] else [0..4 - 1])"
    by simp_all
  moreover have "[1..8] = [1, 2, 3, 4, 5, 6, 7, 8::int]" "[0..3] = [0, 1, 2, 3::int]"
    by (simp_all add: upto_rec1)
  ultimately show ?thesis by simp
qed

section \<open>The CPU decision engine\<close>

lemma foldl_betterADP: "lowestADP (foldl betterADP x xs) (x # xs)"
proof (induction xs arbitrary: x)
  case Nil
  then show ?case by (simp add: lowestADP_def)
next
  case (Cons y ys)
  define b where "b = betterADP x y"
  define r where "r = foldl betterADP b ys"
  have b: "b = x \<or> b = y" "espnADP b \<le> espnADP x" "espnADP b \<le> espnADP y"
    unfolding b_def betterADP_def by simp_all
  have "lowestADP r (b # ys)" unfolding r_def by (rule Cons.IH)
  then have r: "r = b \<or> r \<in> set ys" "espnADP r \<le> espnADP b" "\<forall>q \<in> set ys. espnADP r \<le> espnADP q"
    unfolding lowestADP_def by simp_all
  have "r \<in> set (x # y # ys)" using r(1) b(1) by auto
  moreover have "\<forall>q \<in> set (x # y # ys). espnADP r \<le> espnADP q"
    using r(2,3) b(2,3) by auto
  ultimately have "lowestADP r (x # y # ys)" unfolding lowestADP_def by blast
  then show ?case unfolding r_def b_def by simp
qed

lemma need_positive:
  "(0 < getPositionalNeeds roster cfg pos \<and> 0 < cfg pos) =
     (0 < cfg pos \<and> filledPositions roster pos < cfg pos)"
  unfolding getPositionalNeeds_def by linarith

lemma critical_positions_iff:
  "(pos \<in> set (criticalPositions (hasCriticalPositionalNeeds roster cfg))) =
     (pos \<in> set criticalPosTypes \<and> 0 < cfg pos \<and> filledPositions roster pos < cfg pos)"
  unfolding hasCriticalPositionalNeeds_def Let_def
  by (simp add: need_positive)

lemma hasNeeds_iff:
  "hasNeeds (hasCriticalPositionalNeeds roster cfg) =
     (criticalPositions (hasCriticalPositionalNeeds roster cfg) \<noteq> [])"
  by (simp add: hasCriticalPositionalNeeds_def Let_def)

lemma selectAutoPick_alt:
  "selectAutoPick avail roster cfg =
     (if avail = [] then None
      else if hasNeeds (hasCriticalPositionalNeeds roster cfg)
              \<and> filter (fillsCritical (criticalPositions (hasCriticalPositionalNeeds roster cfg))) avail \<noteq> []
      then Some (foldl betterADP
             (hd (filter (fillsCritical (criticalPositions (hasCriticalPositionalNeeds roster cfg))) avail))
             (tl (filter (fillsCritical (criticalPositions (hasCriticalPositionalNeeds roster cfg))) avail)))
      else Some (foldl betterADP (hd avail) (tl avail)))"
  unfolding selectAutoPick_def Let_def list.case_eq_if by simp

lemma foldl_betterADP_hd_tl: "xs \<noteq> [] \<Longrightarrow> lowestADP (foldl betterADP (hd xs) (tl xs)) xs"
  using foldl_betterADP[of "hd xs" "tl xs"] by simp

text \<open>
  Claim C6. \<open>selectAutoPick\<close> returns no player exactly when the pool is empty. When
  the roster has critical needs and some available player holds a critical position, it
  returns a player of lowest ADP among the available players holding a critical position;
  otherwise, on a non-empty pool, a player of lowest ADP in the whole pool. The result is a
  function of the pool, the roster and the configuration.
\<close>

theorem selectAutoPick_policy:
  "((selectAutoPick avail roster cfg = None) = (avail = []))
   \<and> (hasNeeds (hasCriticalPositionalNeeds roster cfg)
        \<and> (\<exists>q \<in> set avail. fillsCritical (criticalPositions (hasCriticalPositionalNeeds roster cfg)) q)
       \<longrightarrow> (\<exists>p. selectAutoPick avail roster cfg = Some p
              \<and> lowestADP p (filter (fillsCritical
                     (criticalPositions (hasCriticalPositionalNeeds roster cfg))) avail)))
   \<and> (avail \<noteq> [] \<and> \<not> (hasNeeds (hasCriticalPositionalNeeds roster cfg)
        \<and> (\<exists>q \<in> set avail. fillsCritical (criticalPositions (hasCriticalPositionalNeeds roster cfg)) q))
       \<longrightarrow> (\<exists>p. selectAutoPick avail roster cfg = Some p \<and> lowestADP p avail))"
proof -
  let ?crit = "criticalPositions (hasCriticalPositionalNeeds roster cfg)"
  let ?need = "filter (fillsCritical ?crit) avail"
  have ex: "(\<exists>q \<in> set avail. fillsCritical ?crit q) = (?need \<noteq> [])"
    by (simp add: filter_empty_conv)
  have low1: "?need \<noteq> [] \<Longrightarrow> lowestADP (foldl betterADP (hd ?need) (tl ?need)) ?need"
    by (rule foldl_betterADP_hd_tl)
  have low2: "avail \<noteq> [] \<Longrightarrow> lowestADP (foldl betterADP (hd avail) (tl avail)) avail"
    by (rule foldl_betterADP_hd_tl)
  have ne: "?need \<noteq> [] \<Longrightarrow> avail \<noteq> []" by auto
  show ?thesis
    unfolding ex selectAutoPick_alt using low1 low2 ne by simp
qed

lemma crit_example_open:
  "criticalPositions (hasCriticalPositionalNeeds (exampleRoster 0 [] noneFilled) exampleConfigCD) = [C, D]"
  by (simp add: hasCriticalPositionalNeeds_def Let_def criticalPosTypes_def getPositionalNeeds_def
      exampleRoster_def noneFilled_def exampleConfigCD_def)

lemma crit_example_full:
  "criticalPositions (hasCriticalPositionalNeeds
      (exampleRoster 0 [] (noneFilled(C := 1, D := 1))) exampleConfigCD) = []"
  by (simp add: hasCriticalPositionalNeeds_def Let_def criticalPosTypes_def getPositionalNeeds_def
      exampleRoster_def noneFilled_def exampleConfigCD_def)

text \<open>
  A roster with open C and D slots picks the defenceman of ADP 3 over the goalie of
  ADP 1; with both slots taken, the choice is over the whole pool.
\<close>

theorem selectAutoPick_policy_witness:
  "hasNeeds (hasCriticalPositionalNeeds (exampleRoster 0 [] noneFilled) exampleConfigCD)
   \<and> (\<exists>q \<in> set examplePool. fillsCritical (criticalPositions
          (hasCriticalPositionalNeeds (exampleRoster 0 [] noneFilled) exampleConfigCD)) q)
   \<and> (\<exists>p. selectAutoPick examplePool (exampleRoster 0 [] noneFilled) exampleConfigCD = Some p
          \<and> lowestADP p [examplePlayer ''d1'' [D] 3, examplePlayer ''c1'' [C] 5])
   \<and> examplePool \<noteq> []
   \<and> \<not> hasNeeds (hasCriticalPositionalNeeds
          (exampleRoster 0 [] (noneFilled(C := 1, D := 1))) exampleConfigCD)
   \<and> (\<exists>p. selectAutoPick examplePool (exampleRoster 0 [] (noneFilled(C := 1, D := 1)))
            exampleConfigCD = Some p \<and> lowestADP p examplePool)"
proof -
  have h1: "hasNeeds (hasCriticalPositionalNeeds (exampleRoster 0 [] noneFilled) exampleConfigCD)"
    by (simp add: hasNeeds_iff crit_example_open)
  have h2: "\<exists>q \<in> set examplePool. fillsCritical (criticalPositions
          (hasCriticalPositionalNeeds (exampleRoster 0 [] noneFilled) exampleConfigCD)) q"
    by (simp add: crit_example_open examplePool_def fillsCritical_def examplePlayer_def)
  have f: "filter (fillsCritical (criticalPositions
          (hasCriticalPositionalNeeds (exampleRoster 0 [] noneFilled) exampleConfigCD))) examplePool
        = [examplePlayer ''d1'' [D] 3, examplePlayer ''c1'' [C] 5]"
    by (simp add: crit_example_open examplePool_def fillsCritical_def examplePlayer_def)
  have h3: "examplePool \<noteq> []" by (simp add: examplePool_def)
  have h4: "\<not> hasNeeds (hasCriticalPositionalNeeds
          (exampleRoster 0 [] (noneFilled(C := 1, D := 1))) exampleConfigCD)"
    by (simp add: hasNeeds_iff crit_example_full)
  from selectAutoPick_policy[of examplePool "exampleRoster 0 [] noneFilled" exampleConfigCD]
  have a: "\<exists>p. selectAutoPick examplePool (exampleRoster 0 [] noneFilled) exampleConfigCD = Some p
          \<and> lowestADP p [examplePlayer ''d1'' [D] 3, examplePlayer ''c1'' [C] 5]"
    using h1 h2 unfolding f by blast
  from selectAutoPick_policy[of examplePool "exampleRoster 0 [] (noneFilled(C := 1, D := 1))"
         exampleConfigCD]
  have b: "\<exists>p. selectAutoPick examplePool (exampleRoster 0 [] (noneFilled(C := 1, D := 1)))
            exampleConfigCD = Some p \<and> lowestADP p examplePool"
    using h3 h4 by blast
  show ?thesis using h1 h2 h3 h4 a b by blast
qed

lemma goalie_condition:
  "(getPositionalNeeds roster cfg G < cfg G) = (0 < cfg G \<and> 0 < filledPositions roster G)"
  unfolding getPositionalNeeds_def by linarith

text \<open>
  Claim C5, amended. The score of a player is the weighted sum, times 0.4 exactly when the
  player's position list includes G, the pick number is below 50, the G capacity is
  positive and at least one G slot is already filled (this is what
  \<open>needs.G < rosterConfig.G\<close> says), times the early-pick boosts for C and D.
\<close>

theorem scorePlayerForCPU_goalie_penalty:
  "goaliePenaltyApplies plr roster cfg n =
     (G \<in> set (positions plr) \<and> n < 50 \<and> 0 < cfg G \<and> 0 < filledPositions roster G)
   \<and> scorePlayerForCPU plr roster cfg n w rand =
       weightedScore plr roster cfg n w rand
       * (if G \<in> set (positions plr) \<and> n < 50 \<and> 0 < cfg G \<and> 0 < filledPositions roster G
          then 0.4 else 1)
       * earlyBoost plr n"
proof -
  have c: "goaliePenaltyApplies plr roster cfg n =
     (G \<in> set (positions plr) \<and> n < 50 \<and> 0 < cfg G \<and> 0 < filledPositions roster G)"
    unfolding goaliePenaltyApplies_def goalie_condition ..
  have "scorePlayerForCPU plr roster cfg n w rand =
       weightedScore plr roster cfg n w rand
       * (if goaliePenaltyApplies plr roster cfg n then 0.4 else 1) * earlyBoost plr n"
    unfolding scorePlayerForCPU_def Let_def earlyBoost_def by simp
  then show ?thesis unfolding c by simp
qed

lemma example_weighted:
  "weightedScore exampleGoalie rosterOneGoalie exampleConfigG2 10 DEFAULT_CPU_WEIGHTS 0 = 50"
  by (simp add: weightedScore_def positionalScore_def Let_def getPositionalNeeds_def
      exampleGoalie_def rosterOneGoalie_def exampleConfigG2_def examplePlayer_def
      exampleRoster_def noneFilled_def DEFAULT_CPU_WEIGHTS_def)

text \<open>
  Two G slots, one filled, pick 10: the goalie's weighted sum 50 is scored 20.
\<close>

theorem scorePlayerForCPU_goalie_penalty_witness:
  "goaliePenaltyApplies exampleGoalie rosterOneGoalie exampleConfigG2 10
   \<and> scorePlayerForCPU exampleGoalie rosterOneGoalie exampleConfigG2 10 DEFAULT_CPU_WEIGHTS 0 = 20"
proof -
  have g: "G \<in> set (positions exampleGoalie)" "0 < exampleConfigG2 G"
    "0 < filledPositions rosterOneGoalie G"
    by (simp_all add: exampleGoalie_def rosterOneGoalie_def exampleConfigG2_def examplePlayer_def
        exampleRoster_def noneFilled_def)
  have e: "earlyBoost exampleGoalie 10 = 1"
    by (simp add: earlyBoost_def exampleGoalie_def examplePlayer_def)
  from scorePlayerForCPU_goalie_penalty
         [of exampleGoalie rosterOneGoalie exampleConfigG2 10 DEFAULT_CPU_WEIGHTS 0]
  show ?thesis using g e by (simp add: example_weighted)
qed

text \<open>
  Claim C5 as stated fails: with two G slots and one filled, the goalie need is critical
  in the sense of the claim (capacity positive, filled-count below capacity, G among the
  critical positions), and yet the goalie's score at pick 10 is 0.4 times the weighted
  sum.
\<close>

theorem scorePlayerForCPU_goalie_penalty_counterexample:
  "G \<in> set (positions exampleGoalie)
   \<and> (10::int) < 50
   \<and> spec_goalieNeedCritical rosterOneGoalie exampleConfigG2
   \<and> G \<in> set (criticalPositions (hasCriticalPositionalNeeds rosterOneGoalie exampleConfigG2))
   \<and> weightedScore exampleGoalie rosterOneGoalie exampleConfigG2 10 DEFAULT_CPU_WEIGHTS 0 = 50
   \<and> scorePlayerForCPU exampleGoalie rosterOneGoalie exampleConfigG2 10 DEFAULT_CPU_WEIGHTS 0
       = 0.4 * 50"
proof -
  have "G \<in> set (criticalPositions (hasCriticalPositionalNeeds rosterOneGoalie exampleConfigG2))"
    by (simp add: critical_positions_iff criticalPosTypes_def rosterOneGoalie_def
        exampleConfigG2_def exampleRoster_def noneFilled_def)
  moreover have "spec_goalieNeedCritical rosterOneGoalie exampleConfigG2"
    by (simp add: spec_goalieNeedCritical_def rosterOneGoalie_def
        exampleConfigG2_def exampleRoster_def noneFilled_def)
  moreover have "G \<in> set (positions exampleGoalie)"
    by (simp add: exampleGoalie_def examplePlayer_def)
  moreover have "scorePlayerForCPU exampleGoalie rosterOneGoalie exampleConfigG2 10
       DEFAULT_CPU_WEIGHTS 0 = 0.4 * 50"
  proof -
    have "goaliePenaltyApplies exampleGoalie rosterOneGoalie exampleConfigG2 10"
      by (simp add: goaliePenaltyApplies_def getPositionalNeeds_def exampleGoalie_def
          examplePlayer_def rosterOneGoalie_def exampleConfigG2_def exampleRoster_def noneFilled_def)
    moreover have "positions exampleGoalie = [G]"
      by (simp add: exampleGoalie_def examplePlayer_def)
    ultimately show ?thesis
      by (simp add: scorePlayerForCPU_def Let_def example_weighted)
  qed
  ultimately show ?thesis by (simp add: example_weighted)
qed

lemma fillsCritical_available:
  assumes "fillsCritical (criticalPositions (hasCriticalPositionalNeeds roster cfg)) p"
  shows "getAvailablePositionsForPlayer p (filledPositions roster) cfg \<noteq> []"
proof -
  from assms obtain pos where pos: "pos \<in> set (positions p)"
    "pos \<in> set (criticalPositions (hasCriticalPositionalNeeds roster cfg))"
    unfolding fillsCritical_def list_ex_iff by blast
  from pos(2) have prim: "pos \<in> set primaryPositions" and cap: "filledPositions roster pos < cfg pos"
    unfolding critical_positions_iff criticalPosTypes_def primaryPositions_def by simp_all
  have "pos \<in> set (getAvailablePositionsForPlayer p (filledPositions roster) cfg)"
    using primary_available[OF prim, of p "filledPositions roster" cfg] pos(1) cap
    by (simp add: hasCapacity_def)
  then show ?thesis by auto
qed

lemma generic_slot_available:
  "hasCapacity filled cfg UTIL \<or> hasCapacity filled cfg BENCH \<Longrightarrow>
   getAvailablePositionsForPlayer p filled cfg \<noteq> []"
  using UTIL_available[of p filled cfg] BENCH_available[of p filled cfg] by auto

lemma cpuCandidates_nonempty: "avail \<noteq> [] \<Longrightarrow> cpuCandidates avail roster cfg \<noteq> []"
  by (simp add: cpuCandidates_def)

lemma cpuCandidates_subset: "set (cpuCandidates avail roster cfg) \<subseteq> set avail"
  by (simp add: cpuCandidates_def)

lemma selectCPUPick_By:
  "selectCPUPick avail roster cfg n w rands =
     selectCPUPickBy (\<lambda>i p. scorePlayerForCPU p roster cfg n w (rands i)) avail roster cfg"
  unfolding selectCPUPick_def selectCPUPickBy_def ..

lemma hd_insort_key:
  "hd (insort_key f x ys) = (if ys = [] \<or> f x \<le> f (hd ys) then x else hd ys)"
  by (cases ys) simp_all

lemma sort_key_Nil_iff: "(sort_key f xs = []) = (xs = [])"
proof
  assume "sort_key f xs = []"
  then have "length (sort_key f xs) = 0" by (simp only: list.size)
  then show "xs = []" by simp
next
  assume "xs = []"
  then show "sort_key f xs = []" by simp
qed

lemma hd_sort_key_first_min:
  "xs \<noteq> [] \<Longrightarrow>
   \<exists>i < length xs. hd (sort_key f xs) = xs ! i
      \<and> (\<forall>j < length xs. f (xs ! i) \<le> f (xs ! j))
      \<and> (\<forall>j < i. f (xs ! i) < f (xs ! j))"
proof (induction xs)
  case Nil
  then show ?case by simp
next
  case (Cons x xs)
  show ?case
  proof (cases "xs = []")
    case True
    then show ?thesis by simp
  next
    case False
    from Cons.IH[OF False] obtain i where i: "i < length xs"
      "hd (sort_key f xs) = xs ! i"
      "\<forall>j < length xs. f (xs ! i) \<le> f (xs ! j)"
      "\<forall>j < i. f (xs ! i) < f (xs ! j)" by blast
    have ne: "sort_key f xs \<noteq> []" using False by (simp add: sort_key_Nil_iff)
    have hd: "hd (sort_key f (x # xs)) = (if f x \<le> f (xs ! i) then x else xs ! i)"
      using ne i(2) by (simp add: hd_insort_key)
    show ?thesis
    proof (cases "f x \<le> f (xs ! i)")
      case True
      have "\<forall>j < length (x # xs). f ((x # xs) ! 0) \<le> f ((x # xs) ! j)"
      proof (intro allI impI)
        fix j assume "j < length (x # xs)"
        then show "f ((x # xs) ! 0) \<le> f ((x # xs) ! j)"
          using True i(3) by (cases j) (auto intro: order_trans)
      qed
      then have "hd (sort_key f (x # xs)) = (x # xs) ! 0
          \<and> (\<forall>j < length (x # xs). f ((x # xs) ! 0) \<le> f ((x # xs) ! j))
          \<and> (\<forall>j < 0. f ((x # xs) ! 0) < f ((x # xs) ! j))"
        using hd True by simp
      then show ?thesis by (intro exI[of _ 0]) simp
    next
      case False
      then have lt: "f (xs ! i) < f x" by simp
      have a: "\<forall>j < length (x # xs). f ((x # xs) ! Suc i) \<le> f ((x # xs) ! j)"
      proof (intro allI impI)
        fix j assume "j < length (x # xs)"
        then show "f ((x # xs) ! Suc i) \<le> f ((x # xs) ! j)"
          using lt i(3) by (cases j) auto
      qed
      have b: "\<forall>j < Suc i. f ((x # xs) ! Suc i) < f ((x # xs) ! j)"
      proof (intro allI impI)
        fix j assume "j < Suc i"
        then show "f ((x # xs) ! Suc i) < f ((x # xs) ! j)"
          using lt i(4) by (cases j) auto
      qed
      have "Suc i < length (x # xs)" using i(1) by simp
      moreover have "hd (sort_key f (x # xs)) = (x # xs) ! Suc i" using hd False by simp
      ultimately show ?thesis using a b by blast
    qed
  qed
qed

lemma nth_scored:
  "j < length cands \<Longrightarrow>
   map (\<lambda>(i, p). (p, sc i p)) (enumerate 0 cands) ! j = (cands ! j, sc j (cands ! j))"
  by (simp add: nth_enumerate_eq)

lemma top_scored_first_max:
  fixes sc :: "nat \<Rightarrow> 'a \<Rightarrow> real"
  assumes "cands \<noteq> []"
  shows "\<exists>i < length cands.
     (case sort_key (\<lambda>sp. - snd sp) (map (\<lambda>(i, p). (p, sc i p)) (enumerate 0 cands)) of
        [] \<Rightarrow> None | sp # _ \<Rightarrow> Some (fst sp)) = Some (cands ! i)
     \<and> (\<forall>j < length cands. sc j (cands ! j) \<le> sc i (cands ! i))
     \<and> (\<forall>j < i. sc j (cands ! j) < sc i (cands ! i))"
proof -
  define scored where "scored = map (\<lambda>(i, p). (p, sc i p)) (enumerate 0 cands)"
  have len: "length scored = length cands" unfolding scored_def by simp
  have nth: "\<And>j. j < length cands \<Longrightarrow> scored ! j = (cands ! j, sc j (cands ! j))"
    unfolding scored_def by (rule nth_scored)
  have ne: "scored \<noteq> []" using assms len by auto
  from hd_sort_key_first_min[OF ne, of "\<lambda>sp. - snd sp"]
  obtain i where i: "i < length scored"
    "hd (sort_key (\<lambda>sp. - snd sp) scored) = scored ! i"
    "\<forall>j < length scored. - snd (scored ! i) \<le> - snd (scored ! j)"
    "\<forall>j < i. - snd (scored ! i) < - snd (scored ! j)" by blast
  have il: "i < length cands" using i(1) len by simp
  have "sort_key (\<lambda>sp. - snd sp) scored \<noteq> []" using ne by (simp add: sort_key_Nil_iff)
  then have top: "(case sort_key (\<lambda>sp. - snd sp) scored of [] \<Rightarrow> None | sp # _ \<Rightarrow> Some (fst sp))
      = Some (fst (hd (sort_key (\<lambda>sp. - snd sp) scored)))"
    by (cases "sort_key (\<lambda>sp. - snd sp) scored") simp_all
  have r: "fst (hd (sort_key (\<lambda>sp. - snd sp) scored)) = cands ! i"
    unfolding i(2) using nth[OF il] by simp
  have mx: "\<forall>j < length cands. sc j (cands ! j) \<le> sc i (cands ! i)"
  proof (intro allI impI)
    fix j assume j: "j < length cands"
    then have "- snd (scored ! i) \<le> - snd (scored ! j)" using i(3) len by simp
    then show "sc j (cands ! j) \<le> sc i (cands ! i)" using nth[OF j] nth[OF il] by simp
  qed
  have fst: "\<forall>j < i. sc j (cands ! j) < sc i (cands ! i)"
  proof (intro allI impI)
    fix j assume j: "j < i"
    then have jl: "j < length cands" using il by simp
    have "- snd (scored ! i) < - snd (scored ! j)" using i(4) j by simp
    then show "sc j (cands ! j) < sc i (cands ! i)" using nth[OF jl] nth[OF il] by simp
  qed
  show ?thesis
    unfolding scored_def[symmetric] top r using il mx fst by blast
qed

lemma selectCPUPickBy_top:
  assumes "avail \<noteq> []"
  shows "\<exists>i < length (cpuCandidates avail roster cfg).
     selectCPUPickBy sc avail roster cfg = Some (cpuCandidates avail roster cfg ! i)
     \<and> (\<forall>j < length (cpuCandidates avail roster cfg).
           sc j (cpuCandidates avail roster cfg ! j) \<le> sc i (cpuCandidates avail roster cfg ! i))
     \<and> (\<forall>j < i. sc j (cpuCandidates avail roster cfg ! j) < sc i (cpuCandidates avail roster cfg ! i))"
proof -
  have "selectCPUPickBy sc avail roster cfg =
     (case sort_key (\<lambda>sp. - snd sp)
             (map (\<lambda>(i, p). (p, sc i p)) (enumerate 0 (cpuCandidates avail roster cfg))) of
        [] \<Rightarrow> None | sp # _ \<Rightarrow> Some (fst sp))"
    using assms unfolding selectCPUPickBy_def Let_def cpuCandidates_def by simp
  then show ?thesis
    using top_scored_first_max[OF cpuCandidates_nonempty[OF assms, of roster cfg], of sc]
    by simp
qed

text \<open>
  Claim C7, amended. On a non-empty pool the selection returns the top-scored candidate:
  the first candidate, in pool order, whose score is highest, where the candidates are the
  available players holding a critical position when the roster has critical needs, the
  team's draft is more than half complete and some available player holds a critical
  position, and the whole pool otherwise. This is stated for arbitrary outcomes \<open>sc\<close>
  of the scoring calls. The returned player is in the pool; it has a slot with capacity
  when that need filter is active (it then holds a critical position), and also whenever
  UTIL or BENCH has remaining capacity. The last conjunct is the same for
  \<open>selectCPUPick\<close> itself.
\<close>

theorem selectCPUPick_eligible:
  assumes "avail \<noteq> []"
  shows "(\<exists>i < length (cpuCandidates avail roster cfg).
            selectCPUPickBy sc avail roster cfg = Some (cpuCandidates avail roster cfg ! i)
            \<and> (\<forall>j < length (cpuCandidates avail roster cfg).
                  sc j (cpuCandidates avail roster cfg ! j) \<le> sc i (cpuCandidates avail roster cfg ! i))
            \<and> (\<forall>j < i. sc j (cpuCandidates avail roster cfg ! j)
                          < sc i (cpuCandidates avail roster cfg ! i)))
     \<and> (\<exists>p. selectCPUPickBy sc avail roster cfg = Some p \<and> p \<in> set avail
          \<and> (hasNeeds (hasCriticalPositionalNeeds roster cfg) \<and> draftMoreThanHalfComplete roster cfg
               \<and> (\<exists>q \<in> set avail.
                     fillsCritical (criticalPositions (hasCriticalPositionalNeeds roster cfg)) q)
              \<longrightarrow> fillsCritical (criticalPositions (hasCriticalPositionalNeeds roster cfg)) p
                  \<and> getAvailablePositionsForPlayer p (filledPositions roster) cfg \<noteq> [])
          \<and> (hasCapacity (filledPositions roster) cfg UTIL \<or> hasCapacity (filledPositions roster) cfg BENCH
              \<longrightarrow> getAvailablePositionsForPlayer p (filledPositions roster) cfg \<noteq> []))
     \<and> (\<exists>p. selectCPUPick avail roster cfg n w rands = Some p \<and> p \<in> set avail
          \<and> (hasNeeds (hasCriticalPositionalNeeds roster cfg) \<and> draftMoreThanHalfComplete roster cfg
               \<and> (\<exists>q \<in> set avail.
                     fillsCritical (criticalPositions (hasCriticalPositionalNeeds roster cfg)) q)
              \<longrightarrow> fillsCritical (criticalPositions (hasCriticalPositionalNeeds roster cfg)) p
                  \<and> getAvailablePositionsForPlayer p (filledPositions roster) cfg \<noteq> [])
          \<and> (hasCapacity (filledPositions roster) cfg UTIL \<or> hasCapacity (filledPositions roster) cfg BENCH
              \<longrightarrow> getAvailablePositionsForPlayer p (filledPositions roster) cfg \<noteq> []))"
proof -
  let ?crit = "criticalPositions (hasCriticalPositionalNeeds roster cfg)"
  let ?cands = "cpuCandidates avail roster cfg"
  have elig: "p \<in> set avail
      \<and> (hasNeeds (hasCriticalPositionalNeeds roster cfg) \<and> draftMoreThanHalfComplete roster cfg
           \<and> (\<exists>q \<in> set avail. fillsCritical ?crit q)
          \<longrightarrow> fillsCritical ?crit p
              \<and> getAvailablePositionsForPlayer p (filledPositions roster) cfg \<noteq> [])
      \<and> (hasCapacity (filledPositions roster) cfg UTIL \<or> hasCapacity (filledPositions roster) cfg BENCH
          \<longrightarrow> getAvailablePositionsForPlayer p (filledPositions roster) cfg \<noteq> [])"
    if p: "p \<in> set ?cands" for p
  proof -
    have mem: "p \<in> set avail" using p cpuCandidates_subset by blast
    have crit: "fillsCritical ?crit p
        \<and> getAvailablePositionsForPlayer p (filledPositions roster) cfg \<noteq> []"
      if h: "hasNeeds (hasCriticalPositionalNeeds roster cfg)" "draftMoreThanHalfComplete roster cfg"
        "\<exists>q \<in> set avail. fillsCritical ?crit q"
    proof -
      have "filter (fillsCritical ?crit) avail \<noteq> []" using h(3) by (simp add: filter_empty_conv)
      then have "?cands = filter (fillsCritical ?crit) avail"
        using h(1,2) by (simp add: cpuCandidates_def)
      then have "fillsCritical ?crit p" using p by simp
      then show ?thesis using fillsCritical_available by blast
    qed
    have gen: "getAvailablePositionsForPlayer p (filledPositions roster) cfg \<noteq> []"
      if "hasCapacity (filledPositions roster) cfg UTIL \<or> hasCapacity (filledPositions roster) cfg BENCH"
      using that by (rule generic_slot_available)
    show ?thesis using mem crit gen by blast
  qed
  have top: "\<exists>i < length ?cands.
            selectCPUPickBy sc avail roster cfg = Some (?cands ! i)
            \<and> (\<forall>j < length ?cands. sc j (?cands ! j) \<le> sc i (?cands ! i))
            \<and> (\<forall>j < i. sc j (?cands ! j) < sc i (?cands ! i))"
    using assms by (rule selectCPUPickBy_top)
  then obtain i where i: "i < length ?cands" "selectCPUPickBy sc avail roster cfg = Some (?cands ! i)"
    by blast
  have by_part: "\<exists>p. selectCPUPickBy sc avail roster cfg = Some p \<and> p \<in> set ?cands"
    using i by (auto intro: nth_mem)
  from selectCPUPickBy_top[OF assms, of roster cfg
         "\<lambda>i p. scorePlayerForCPU p roster cfg n w (rands i)"]
  obtain k where k: "k < length ?cands"
    "selectCPUPick avail roster cfg n w rands = Some (?cands ! k)"
    unfolding selectCPUPick_By by blast
  have model_part: "\<exists>p. selectCPUPick avail roster cfg n w rands = Some p \<and> p \<in> set ?cands"
    using k by (auto intro: nth_mem)
  show ?thesis using top by_part model_part elig by blast
qed

lemma crit_needs_goalie:
  "criticalPositions (hasCriticalPositionalNeeds rosterNeedsGoalie exampleConfigBench) = [G]"
  by (simp add: hasCriticalPositionalNeeds_def Let_def criticalPosTypes_def getPositionalNeeds_def
      rosterNeedsGoalie_def exampleRoster_def noneFilled_def exampleConfigBench_def)

lemma cands_needs_goalie:
  "cpuCandidates [exampleCentre, exampleLateGoalie] rosterNeedsGoalie exampleConfigBench
     = [exampleLateGoalie]"
proof -
  have h1: "hasNeeds (hasCriticalPositionalNeeds rosterNeedsGoalie exampleConfigBench)"
    by (simp add: hasNeeds_iff crit_needs_goalie)
  have h2: "draftMoreThanHalfComplete rosterNeedsGoalie exampleConfigBench"
    by (simp add: draftMoreThanHalfComplete_def totalSlots_def rosterNeedsGoalie_def
        exampleRoster_def noneFilled_def exampleConfigBench_def)
  have f: "filter (fillsCritical (criticalPositions
            (hasCriticalPositionalNeeds rosterNeedsGoalie exampleConfigBench)))
            [exampleCentre, exampleLateGoalie] = [exampleLateGoalie]"
    by (simp add: crit_needs_goalie fillsCritical_def exampleLateGoalie_def exampleCentre_def
        examplePlayer_def)
  show ?thesis unfolding cpuCandidates_def f using h1 h2 by simp
qed

text \<open>
  A roster of three picks out of five slots that still needs a goalie: the goalie is the
  only candidate and is selected, though the centre has the better ADP.
\<close>

theorem selectCPUPick_eligible_witness:
  "[exampleCentre, exampleLateGoalie] \<noteq> []
   \<and> hasNeeds (hasCriticalPositionalNeeds rosterNeedsGoalie exampleConfigBench)
   \<and> draftMoreThanHalfComplete rosterNeedsGoalie exampleConfigBench
   \<and> (\<exists>q \<in> set [exampleCentre, exampleLateGoalie].
         fillsCritical (criticalPositions
           (hasCriticalPositionalNeeds rosterNeedsGoalie exampleConfigBench)) q)
   \<and> hasCapacity (filledPositions rosterNeedsGoalie) exampleConfigBench BENCH
   \<and> selectCPUPickBy (\<lambda>i p. 200 - espnADP p) [exampleCentre, exampleLateGoalie]
        rosterNeedsGoalie exampleConfigBench = Some exampleLateGoalie
   \<and> (\<exists>p. selectCPUPick [exampleCentre, exampleLateGoalie] rosterNeedsGoalie exampleConfigBench
             9 DEFAULT_CPU_WEIGHTS (\<lambda>i. 0) = Some p
          \<and> fillsCritical (criticalPositions
               (hasCriticalPositionalNeeds rosterNeedsGoalie exampleConfigBench)) p
          \<and> getAvailablePositionsForPlayer p (filledPositions rosterNeedsGoalie)
               exampleConfigBench \<noteq> [])"
proof -
  have h0: "[exampleCentre, exampleLateGoalie] \<noteq> []" by simp
  have h1: "hasNeeds (hasCriticalPositionalNeeds rosterNeedsGoalie exampleConfigBench)"
    by (simp add: hasNeeds_iff crit_needs_goalie)
  have h2: "draftMoreThanHalfComplete rosterNeedsGoalie exampleConfigBench"
    by (simp add: draftMoreThanHalfComplete_def totalSlots_def rosterNeedsGoalie_def
        exampleRoster_def noneFilled_def exampleConfigBench_def)
  have h3: "\<exists>q \<in> set [exampleCentre, exampleLateGoalie].
         fillsCritical (criticalPositions
           (hasCriticalPositionalNeeds rosterNeedsGoalie exampleConfigBench)) q"
    by (simp add: crit_needs_goalie fillsCritical_def exampleLateGoalie_def examplePlayer_def)
  have h4: "hasCapacity (filledPositions rosterNeedsGoalie) exampleConfigBench BENCH"
    by (simp add: hasCapacity_def rosterNeedsGoalie_def exampleRoster_def noneFilled_def
        exampleConfigBench_def)
  note inst = selectCPUPick_eligible[OF h0, of rosterNeedsGoalie exampleConfigBench
         "\<lambda>i p. 200 - espnADP p" 9 DEFAULT_CPU_WEIGHTS "\<lambda>i. 0"]
  from inst obtain i where
    "i < length (cpuCandidates [exampleCentre, exampleLateGoalie] rosterNeedsGoalie exampleConfigBench)"
    "selectCPUPickBy (\<lambda>i p. 200 - espnADP p) [exampleCentre, exampleLateGoalie]
        rosterNeedsGoalie exampleConfigBench
      = Some (cpuCandidates [exampleCentre, exampleLateGoalie] rosterNeedsGoalie exampleConfigBench ! i)"
    by blast
  then have top: "selectCPUPickBy (\<lambda>i p. 200 - espnADP p) [exampleCentre, exampleLateGoalie]
        rosterNeedsGoalie exampleConfigBench = Some exampleLateGoalie"
    unfolding cands_needs_goalie by simp
  from inst have "\<exists>p. selectCPUPick [exampleCentre, exampleLateGoalie] rosterNeedsGoalie
             exampleConfigBench 9 DEFAULT_CPU_WEIGHTS (\<lambda>i. 0) = Some p
          \<and> fillsCritical (criticalPositions
               (hasCriticalPositionalNeeds rosterNeedsGoalie exampleConfigBench)) p
          \<and> getAvailablePositionsForPlayer p (filledPositions rosterNeedsGoalie)
               exampleConfigBench \<noteq> []"
    using h1 h2 h3 by blast
  then show ?thesis using h0 h1 h2 h3 h4 top by blast
qed

lemma score_centre:
  "scorePlayerForCPU exampleCentre rosterCentreTaken exampleConfigCG 5 DEFAULT_CPU_WEIGHTS 0
     = 87.175"
  by (simp add: scorePlayerForCPU_def weightedScore_def positionalScore_def Let_def
      goaliePenaltyApplies_def getPositionalNeeds_def exampleCentre_def examplePlayer_def
      rosterCentreTaken_def exampleRoster_def noneFilled_def exampleConfigCG_def
      DEFAULT_CPU_WEIGHTS_def)

lemma score_late_goalie:
  "scorePlayerForCPU exampleLateGoalie rosterCentreTaken exampleConfigCG 5 DEFAULT_CPU_WEIGHTS 0
     = 21"
  by (simp add: scorePlayerForCPU_def weightedScore_def positionalScore_def Let_def
      goaliePenaltyApplies_def getPositionalNeeds_def exampleLateGoalie_def examplePlayer_def
      rosterCentreTaken_def exampleRoster_def noneFilled_def exampleConfigCG_def
      DEFAULT_CPU_WEIGHTS_def)

lemma not_half_complete: "\<not> draftMoreThanHalfComplete rosterCentreTaken exampleConfigCG"
  by (simp add: draftMoreThanHalfComplete_def totalSlots_def rosterCentreTaken_def
      exampleRoster_def noneFilled_def exampleConfigCG_def)

text \<open>
  Claim C7 as stated fails: one C slot (taken) and one G slot (open), one pick made out
  of two, so the need filter is off. The goalie of ADP 100 can fill G; the centre of ADP 5
  can fill nothing; the centre scores 87.175 against 21 and is selected.
\<close>

theorem selectCPUPick_eligible_counterexample:
  "[exampleCentre, exampleLateGoalie] \<noteq> []
   \<and> getAvailablePositionsForPlayer exampleLateGoalie (filledPositions rosterCentreTaken)
        exampleConfigCG = [G]
   \<and> selectCPUPick [exampleCentre, exampleLateGoalie] rosterCentreTaken exampleConfigCG 5
        DEFAULT_CPU_WEIGHTS (\<lambda>i. 0) = Some exampleCentre
   \<and> getAvailablePositionsForPlayer exampleCentre (filledPositions rosterCentreTaken)
        exampleConfigCG = []"
proof -
  have a: "getAvailablePositionsForPlayer exampleLateGoalie (filledPositions rosterCentreTaken)
        exampleConfigCG = [G]"
    by (simp add: getAvailablePositionsForPlayer_def positionTypes_def canFillPosition_def
        exampleLateGoalie_def examplePlayer_def rosterCentreTaken_def exampleRoster_def
        noneFilled_def exampleConfigCG_def)
  have b: "getAvailablePositionsForPlayer exampleCentre (filledPositions rosterCentreTaken)
        exampleConfigCG = []"
    by (simp add: getAvailablePositionsForPlayer_def positionTypes_def canFillPosition_def
        exampleCentre_def examplePlayer_def rosterCentreTaken_def exampleRoster_def
        noneFilled_def exampleConfigCG_def)
  have c: "selectCPUPick [exampleCentre, exampleLateGoalie] rosterCentreTaken exampleConfigCG 5
        DEFAULT_CPU_WEIGHTS (\<lambda>i. 0) = Some exampleCentre"
    unfolding selectCPUPick_def Let_def
    by (simp add: not_half_complete score_centre score_late_goalie)
  show ?thesis using a b c by simp
qed

section \<open>The draft state machine\<close>

lemma mapIdx_ok:
  "(\<And>i x. f i x = Inr (g i x)) \<Longrightarrow> mapIdx f k xs = Inr (map (\<lambda>(i, x). g i x) (enumerate k xs))"
  by (induction xs arbitrary: k) simp_all

lemma updateTeam_settings:
  "leagueSettings state = Some ls \<Longrightarrow>
   updateTeam state cp plr idx team =
     Inr (if int idx \<noteq> teamIndex cp then team
          else snd (assignPlayerToRoster plr (team\<lparr>picks := picks team @ [plr]\<rparr>) (rosterConfig ls)))"
  by (simp add: updateTeam_def Let_def)

lemma mapIdx_updateTeam:
  assumes "leagueSettings state = Some ls"
  shows "mapIdx (updateTeam state cp plr) 0 (teams state) = Inr (newTeamsOf state cp plr (rosterConfig ls))"
  unfolding newTeamsOf_def pickedTeam_def
  by (rule mapIdx_ok) (simp add: updateTeam_settings[OF assms])

lemma makePick_guard:
  "arrayGet (draftOrder state) (currentPickIndex state) = None \<Longrightarrow> makePick state plr now = Inr state"
  "arrayGet (draftOrder state) (currentPickIndex state) = Some cp \<Longrightarrow> player cp \<noteq> None
     \<Longrightarrow> makePick state plr now = Inr state"
  by (simp_all add: makePick_def)

lemma autoPick_guard:
  "arrayGet (draftOrder state) (currentPickIndex state) = None \<Longrightarrow> autoPick state now = Inr state"
  "arrayGet (draftOrder state) (currentPickIndex state) = Some cp \<Longrightarrow> player cp \<noteq> None
     \<Longrightarrow> autoPick state now = Inr state"
  by (simp_all add: autoPick_def)

lemma makePick_step:
  assumes cp: "arrayGet (draftOrder state) (currentPickIndex state) = Some cp"
    and un: "player cp = None"
    and ls: "leagueSettings state = Some ls"
  shows "makePick state plr now =
     Inr (state\<lparr>draftOrder := (draftOrder state)
                   [currentPickIndex state := cp\<lparr>player := Some plr, timestamp := Some now\<rparr>],
                teams := newTeamsOf state cp plr (rosterConfig ls),
                availablePlayers := filter (\<lambda>p. playerId p \<noteq> playerId plr) (availablePlayers state),
                currentPickIndex := currentPickIndex state + 1,
                isDraftComplete := (currentPickIndex state + 1 \<ge> length (draftOrder state)),
                pickTimerRemaining := draftTimerSeconds ls,
                isTimerActive := (case arrayGet (draftOrder state) (currentPickIndex state + 1) of
                                    None \<Rightarrow> False | Some np \<Rightarrow> isUserPick np)\<rparr>)"
  using un by (simp add: makePick_def Let_def cp ls mapIdx_updateTeam[OF ls])

lemma arrayGet_in_range: "i < length xs \<Longrightarrow> arrayGet xs i = Some (xs ! i)"
  by (simp add: arrayGet_def)

lemma assign_picks: "picks (snd (assignPlayerToRoster plr roster cfg)) = picks roster"
  by (simp add: assign_eq incrementFilled_def split: option.splits)

lemma length_newTeamsOf: "length (newTeamsOf state cp plr cfg) = length (teams state)"
  by (simp add: newTeamsOf_def)

lemma nth_newTeamsOf:
  "k < length (teams state) \<Longrightarrow>
   newTeamsOf state cp plr cfg ! k =
     (if int k \<noteq> teamIndex cp then teams state ! k else pickedTeam plr cfg (teams state ! k))"
  by (simp add: newTeamsOf_def nth_enumerate_eq)

lemma picks_pickedTeam: "picks (pickedTeam plr cfg team) = picks team @ [plr]"
  by (simp add: pickedTeam_def assign_picks)

text \<open>
  Claim C3. When the current slot is in range and unfilled (and the league settings are
  set, as they are whenever a draft order exists), \<open>makePick\<close> returns a state in
  which that slot holds the player and the timestamp; the owning team is the result of the
  roster assignment run on that team with the player appended to its picks, every other team
  is as before; the available pool has lost the players with the submitted identifier; the
  pick index is one higher; \<open>isDraftComplete\<close> holds exactly when the new index is the
  length of the draft order; the timer is the configured duration; the timer is active
  exactly when a next slot exists and is the user's; and the other fields are as before.
\<close>

theorem makePick_records:
  assumes "currentPickIndex state < length (draftOrder state)"
    and "player (draftOrder state ! currentPickIndex state) = None"
    and "leagueSettings state = Some ls"
  shows "\<exists>s'. makePick state plr now = Inr s'
    \<and> draftOrder s' = (draftOrder state)[currentPickIndex state :=
          (draftOrder state ! currentPickIndex state)\<lparr>player := Some plr, timestamp := Some now\<rparr>]
    \<and> length (teams s') = length (teams state)
    \<and> (\<forall>k < length (teams state).
          teams s' ! k =
            (if int k = teamIndex (draftOrder state ! currentPickIndex state)
             then snd (assignPlayerToRoster plr
                        ((teams state ! k)\<lparr>picks := picks (teams state ! k) @ [plr]\<rparr>)
                        (rosterConfig ls))
             else teams state ! k))
    \<and> (\<forall>k < length (teams state).
          int k = teamIndex (draftOrder state ! currentPickIndex state) \<longrightarrow>
          picks (teams s' ! k) = picks (teams state ! k) @ [plr])
    \<and> availablePlayers s' = filter (\<lambda>p. playerId p \<noteq> playerId plr) (availablePlayers state)
    \<and> currentPickIndex s' = currentPickIndex state + 1
    \<and> isDraftComplete s' = (currentPickIndex s' = length (draftOrder state))
    \<and> pickTimerRemaining s' = draftTimerSeconds ls
    \<and> isTimerActive s' =
         (currentPickIndex state + 1 < length (draftOrder state)
          \<and> isUserPick (draftOrder state ! (currentPickIndex state + 1)))
    \<and> leagueSettings s' = leagueSettings state \<and> allPlayers s' = allPlayers state
    \<and> currentTab s' = currentTab state \<and> isDraftStarted s' = isDraftStarted state"
proof -
  let ?i = "currentPickIndex state"
  let ?cp = "draftOrder state ! ?i"
  have cp: "arrayGet (draftOrder state) ?i = Some ?cp"
    using assms(1) by (rule arrayGet_in_range)
  note step = makePick_step[OF cp assms(2) assms(3), of plr now]
  have timer: "(case arrayGet (draftOrder state) (?i + 1) of None \<Rightarrow> False | Some np \<Rightarrow> isUserPick np)
      = (?i + 1 < length (draftOrder state) \<and> isUserPick (draftOrder state ! (?i + 1)))"
    by (simp add: arrayGet_def)
  have complete: "(?i + 1 \<ge> length (draftOrder state)) = (?i + 1 = length (draftOrder state))"
    using assms(1) by auto
  have teams_nth: "\<forall>k < length (teams state).
      newTeamsOf state ?cp plr (rosterConfig ls) ! k =
        (if int k = teamIndex ?cp
         then snd (assignPlayerToRoster plr
                    ((teams state ! k)\<lparr>picks := picks (teams state ! k) @ [plr]\<rparr>) (rosterConfig ls))
         else teams state ! k)"
    by (simp add: nth_newTeamsOf pickedTeam_def)
  have picks_nth: "\<forall>k < length (teams state). int k = teamIndex ?cp \<longrightarrow>
      picks (newTeamsOf state ?cp plr (rosterConfig ls) ! k) = picks (teams state ! k) @ [plr]"
    by (simp add: nth_newTeamsOf picks_pickedTeam)
  show ?thesis
    unfolding step using timer complete teams_nth picks_nth
    by (simp add: length_newTeamsOf)
qed

text \<open>
  Claim C4. When the pick index is out of range or the current slot is already filled,
  \<open>makePick\<close> and \<open>autoPick\<close> return the state as it is, without an error.
  \<open>autoPick\<close> also returns the state as it is when the available pool is empty (in a
  state whose league settings are set).
\<close>

theorem makePick_autoPick_noop:
  "(currentPickIndex state \<ge> length (draftOrder state)
      \<or> player (draftOrder state ! currentPickIndex state) \<noteq> None
     \<longrightarrow> makePick state plr now = Inr state \<and> autoPick state now = Inr state)
   \<and> (availablePlayers state = [] \<and> leagueSettings state \<noteq> None
     \<longrightarrow> autoPick state now = Inr state)"
proof -
  have guard: "makePick state plr now = Inr state \<and> autoPick state now = Inr state"
    if "currentPickIndex state \<ge> length (draftOrder state)
        \<or> player (draftOrder state ! currentPickIndex state) \<noteq> None"
  proof (cases "currentPickIndex state < length (draftOrder state)")
    case True
    then have cp: "arrayGet (draftOrder state) (currentPickIndex state)
        = Some (draftOrder state ! currentPickIndex state)" by (rule arrayGet_in_range)
    moreover have "player (draftOrder state ! currentPickIndex state) \<noteq> None"
      using that True by simp
    ultimately show ?thesis using makePick_guard(2) autoPick_guard(2) by blast
  next
    case False
    then have "arrayGet (draftOrder state) (currentPickIndex state) = None"
      by (simp add: arrayGet_def)
    then show ?thesis using makePick_guard(1) autoPick_guard(1) by blast
  qed
  have empty: "autoPick state now = Inr state"
    if "availablePlayers state = []" "leagueSettings state \<noteq> None"
    using that by (auto simp: autoPick_def split: option.splits)
  show ?thesis using guard empty by blast
qed

text \<open>
  Claim C8, amended. When the roster assignment finds no slot for the drafted player on
  the owning team, \<open>makePick\<close> raises nothing: it returns a state in which the player is
  recorded in the slot and appended to the team's picks, the pool is filtered and the index
  advanced, while the team's filled-counts are exactly as before.
\<close>

theorem makePick_roster_full:
  assumes "currentPickIndex state < length (draftOrder state)"
    and "player (draftOrder state ! currentPickIndex state) = None"
    and "leagueSettings state = Some ls"
    and "k < length (teams state)"
    and "int k = teamIndex (draftOrder state ! currentPickIndex state)"
    and "fst (assignPlayerToRoster plr (teams state ! k) (rosterConfig ls)) = None"
  shows "\<exists>s'. makePick state plr now = Inr s'
    \<and> player (draftOrder s' ! currentPickIndex state) = Some plr
    \<and> picks (teams s' ! k) = picks (teams state ! k) @ [plr]
    \<and> filledPositions (teams s' ! k) = filledPositions (teams state ! k)
    \<and> availablePlayers s' = filter (\<lambda>p. playerId p \<noteq> playerId plr) (availablePlayers state)
    \<and> currentPickIndex s' = currentPickIndex state + 1"
proof -
  let ?i = "currentPickIndex state"
  let ?cp = "draftOrder state ! ?i"
  have cp: "arrayGet (draftOrder state) ?i = Some ?cp"
    using assms(1) by (rule arrayGet_in_range)
  note step = makePick_step[OF cp assms(2) assms(3), of plr now]
  have none: "spec_assign plr (filledPositions (teams state ! k)) (rosterConfig ls) = None"
    using assms(6) by (simp add: assign_eq split: option.splits)
  have team: "newTeamsOf state ?cp plr (rosterConfig ls) ! k
      = (teams state ! k)\<lparr>picks := picks (teams state ! k) @ [plr]\<rparr>"
    using assms(4,5) none by (simp add: nth_newTeamsOf pickedTeam_def assign_eq)
  show ?thesis
    unfolding step using assms(1) team by simp
qed

lemma exampleOrder:
  "generateSnakeDraftOrder 2 2 1 =
     [newDraftPick 2 1 1 1 1, newDraftPick 2 1 1 2 2, newDraftPick 2 1 2 1 3, newDraftPick 2 1 2 2 4]"
  by (simp add: generate_closed snakeRound_def upto_rec1)

lemma example_teamIndex:
  "teamIndex (newDraftPick 2 1 1 1 1) = 0" "teamIndex (newDraftPick 2 1 1 2 2) = 1"
  "teamIndex (newDraftPick 2 1 2 1 3) = 1" "teamIndex (newDraftPick 2 1 2 2 4) = 0"
  "player (newDraftPick a b c d e) = None"
  by (simp_all add: newDraftPick_def Let_def)

text \<open>
  The example draft: two teams, one C and one D slot each, hence two rounds. The states
  below are the ones reached by the first, second and third pick.
\<close>

lemma example_first_pick: "makePick exampleDraft exampleCentre 0 = Inr exampleAfterFirstPick"
proof -
  have cp: "arrayGet (draftOrder exampleDraft) (currentPickIndex exampleDraft)
      = Some (newDraftPick 2 1 1 1 1)"
    by (simp add: exampleDraft_def exampleOrder arrayGet_def)
  have ls: "leagueSettings exampleDraft = Some exampleSettings" by (simp add: exampleDraft_def)
  have a: "assignPlayerToRoster exampleCentre (exampleRoster 0 [exampleCentre] noneFilled)
             exampleConfigCD = (Some C, exampleRoster 0 [exampleCentre] (noneFilled(C := 1)))"
    by (simp add: assign_eq spec_assign_def hasCapacity_def exampleCentre_def examplePlayer_def
        exampleRoster_def noneFilled_def exampleConfigCD_def incrementFilled_def)
  have t: "newTeamsOf exampleDraft (newDraftPick 2 1 1 1 1) exampleCentre (rosterConfig exampleSettings)
      = [exampleRoster 0 [exampleCentre] (noneFilled(C := 1)), exampleRoster 1 [] noneFilled]"
    unfolding newTeamsOf_def pickedTeam_def
    by (simp add: exampleDraft_def example_teamIndex exampleSettings_def
        a[unfolded exampleRoster_def] exampleRoster_def)
  have av: "filter (\<lambda>p. playerId p \<noteq> playerId exampleCentre) examplePool = examplePool"
    by (simp add: examplePool_def exampleCentre_def examplePlayer_def)
  show ?thesis
    unfolding makePick_step[OF cp example_teamIndex(5) ls] t
    by (simp add: exampleDraft_def exampleAfterFirstPick_def exampleOrder av arrayGet_def
        exampleSettings_def newDraftPick_def Let_def)
qed

lemma example_second_pick:
  "makePick exampleAfterFirstPick (examplePlayer ''d1'' [D] 3) 1 = Inr exampleTeamOneFull"
proof -
  have cp: "arrayGet (draftOrder exampleAfterFirstPick) (currentPickIndex exampleAfterFirstPick)
      = Some (newDraftPick 2 1 1 2 2)"
    by (simp add: exampleAfterFirstPick_def arrayGet_def)
  have ls: "leagueSettings exampleAfterFirstPick = Some exampleSettings"
    by (simp add: exampleAfterFirstPick_def)
  have a: "assignPlayerToRoster (examplePlayer ''d1'' [D] 3)
             (exampleRoster 1 [examplePlayer ''d1'' [D] 3] noneFilled) exampleConfigCD
           = (Some D, exampleRoster 1 [examplePlayer ''d1'' [D] 3] (noneFilled(D := 1)))"
    by (simp add: assign_eq spec_assign_def hasCapacity_def isForward_def examplePlayer_def
        exampleRoster_def noneFilled_def exampleConfigCD_def incrementFilled_def)
  have t: "newTeamsOf exampleAfterFirstPick (newDraftPick 2 1 1 2 2) (examplePlayer ''d1'' [D] 3)
             (rosterConfig exampleSettings)
      = [exampleRoster 0 [exampleCentre] (noneFilled(C := 1)),
         exampleRoster 1 [examplePlayer ''d1'' [D] 3] (noneFilled(D := 1))]"
    unfolding newTeamsOf_def pickedTeam_def
    by (simp add: exampleAfterFirstPick_def example_teamIndex exampleSettings_def
        a[unfolded exampleRoster_def] exampleRoster_def)
  have av: "filter (\<lambda>p. playerId p \<noteq> playerId (examplePlayer ''d1'' [D] 3)) examplePool
      = [examplePlayer ''g1'' [G] 1, examplePlayer ''c1'' [C] 5]"
    by (simp add: examplePool_def examplePlayer_def)
  show ?thesis
    unfolding makePick_step[OF cp example_teamIndex(5) ls] t
    by (simp add: exampleAfterFirstPick_def exampleTeamOneFull_def av arrayGet_def
        exampleSettings_def newDraftPick_def Let_def)
qed

lemma example_full_assign:
  "fst (assignPlayerToRoster exampleSecondDefender (teams exampleTeamOneFull ! 1)
          (rosterConfig exampleSettings)) = None"
  by (simp add: assign_eq spec_assign_def hasCapacity_def isForward_def exampleSecondDefender_def
      examplePlayer_def exampleTeamOneFull_def exampleRoster_def noneFilled_def
      exampleConfigCD_def exampleSettings_def)

lemma example_full_hyps:
  "currentPickIndex exampleTeamOneFull < length (draftOrder exampleTeamOneFull)"
  "player (draftOrder exampleTeamOneFull ! currentPickIndex exampleTeamOneFull) = None"
  "leagueSettings exampleTeamOneFull = Some exampleSettings"
  "1 < length (teams exampleTeamOneFull)"
  "int 1 = teamIndex (draftOrder exampleTeamOneFull ! currentPickIndex exampleTeamOneFull)"
  by (simp_all add: exampleTeamOneFull_def example_teamIndex)

text \<open>
  Team 1 holds a defenceman in its only D slot and is on the clock for a second
  defenceman.
\<close>

theorem makePick_roster_full_witness:
  "currentPickIndex exampleTeamOneFull < length (draftOrder exampleTeamOneFull)
   \<and> player (draftOrder exampleTeamOneFull ! currentPickIndex exampleTeamOneFull) = None
   \<and> leagueSettings exampleTeamOneFull = Some exampleSettings
   \<and> 1 < length (teams exampleTeamOneFull)
   \<and> int 1 = teamIndex (draftOrder exampleTeamOneFull ! currentPickIndex exampleTeamOneFull)
   \<and> fst (assignPlayerToRoster exampleSecondDefender (teams exampleTeamOneFull ! 1)
            (rosterConfig exampleSettings)) = None
   \<and> (\<exists>s'. makePick exampleTeamOneFull exampleSecondDefender 2 = Inr s'
         \<and> player (draftOrder s' ! currentPickIndex exampleTeamOneFull) = Some exampleSecondDefender
         \<and> picks (teams s' ! 1) = picks (teams exampleTeamOneFull ! 1) @ [exampleSecondDefender]
         \<and> filledPositions (teams s' ! 1) = filledPositions (teams exampleTeamOneFull ! 1)
         \<and> currentPickIndex s' = currentPickIndex exampleTeamOneFull + 1)"
  using makePick_roster_full[OF example_full_hyps example_full_assign, of 2]
    example_full_hyps example_full_assign
  by blast

text \<open>
  Claim C8 as stated fails: in that state the assignment returns no position, and the
  transition succeeds all the same. The slot holds the player, the team has two picks, and
  its filled-counts still sum to 1.
\<close>

theorem makePick_roster_full_counterexample:
  "fst (assignPlayerToRoster exampleSecondDefender (teams exampleTeamOneFull ! 1)
          (rosterConfig exampleSettings)) = None
   \<and> makePick exampleTeamOneFull exampleSecondDefender 2 = Inr exampleAfterFullPick
   \<and> player (draftOrder exampleAfterFullPick ! 2) = Some exampleSecondDefender
   \<and> length (picks (teams exampleAfterFullPick ! 1)) = 2
   \<and> filledPositions (teams exampleAfterFullPick ! 1) = filledPositions (teams exampleTeamOneFull ! 1)
   \<and> totalFilled (filledPositions (teams exampleAfterFullPick ! 1)) = 1
   \<and> currentPickIndex exampleAfterFullPick = 3"
proof -
  have cp: "arrayGet (draftOrder exampleTeamOneFull) (currentPickIndex exampleTeamOneFull)
      = Some (newDraftPick 2 1 2 1 3)"
    by (simp add: exampleTeamOneFull_def arrayGet_def)
  have a: "assignPlayerToRoster exampleSecondDefender
             (exampleRoster 1 [examplePlayer ''d1'' [D] 3, exampleSecondDefender] (noneFilled(D := 1)))
             exampleConfigCD
           = (None, exampleRoster 1 [examplePlayer ''d1'' [D] 3, exampleSecondDefender]
                      (noneFilled(D := 1)))"
    by (simp add: assign_eq spec_assign_def hasCapacity_def isForward_def exampleSecondDefender_def
        examplePlayer_def exampleRoster_def noneFilled_def exampleConfigCD_def)
  have t: "newTeamsOf exampleTeamOneFull (newDraftPick 2 1 2 1 3) exampleSecondDefender
             (rosterConfig exampleSettings)
      = [exampleRoster 0 [exampleCentre] (noneFilled(C := 1)),
         exampleRoster 1 [examplePlayer ''d1'' [D] 3, exampleSecondDefender] (noneFilled(D := 1))]"
    unfolding newTeamsOf_def pickedTeam_def
    by (simp add: exampleTeamOneFull_def example_teamIndex exampleSettings_def
        a[unfolded exampleRoster_def] exampleRoster_def)
  have ids: "\<And>pid ps adp. playerId (examplePlayer pid ps adp) = pid"
    "playerId exampleSecondDefender = ''d2''"
    by (simp_all add: exampleSecondDefender_def examplePlayer_def)
  have m: "makePick exampleTeamOneFull exampleSecondDefender 2 = Inr exampleAfterFullPick"
    unfolding makePick_step[OF cp example_teamIndex(5) example_full_hyps(3)] t
    by (simp add: exampleTeamOneFull_def exampleAfterFullPick_def ids arrayGet_def
        exampleSettings_def newDraftPick_def Let_def)
  have r: "player (draftOrder exampleAfterFullPick ! 2) = Some exampleSecondDefender"
    "length (picks (teams exampleAfterFullPick ! 1)) = 2"
    "filledPositions (teams exampleAfterFullPick ! 1) = filledPositions (teams exampleTeamOneFull ! 1)"
    "totalFilled (filledPositions (teams exampleAfterFullPick ! 1)) = 1"
    "currentPickIndex exampleAfterFullPick = 3"
    by (simp_all add: exampleAfterFullPick_def exampleTeamOneFull_def exampleRoster_def
        totalFilled_def allPositions_def noneFilled_def)
  show ?thesis using example_full_assign m r by simp
qed

lemma example_draft_hyps:
  "currentPickIndex exampleDraft < length (draftOrder exampleDraft)"
  "player (draftOrder exampleDraft ! currentPickIndex exampleDraft) = None"
  "leagueSettings exampleDraft = Some exampleSettings"
  by (simp_all add: exampleDraft_def exampleOrder example_teamIndex)

text \<open>
  The first pick of a two-team, two-round draft.
\<close>

theorem makePick_records_witness:
  "currentPickIndex exampleDraft < length (draftOrder exampleDraft)
   \<and> player (draftOrder exampleDraft ! currentPickIndex exampleDraft) = None
   \<and> leagueSettings exampleDraft = Some exampleSettings
   \<and> (\<exists>s'. makePick exampleDraft exampleCentre 0 = Inr s'
         \<and> currentPickIndex s' = 1
         \<and> isDraftComplete s' = (currentPickIndex s' = length (draftOrder exampleDraft))
         \<and> pickTimerRemaining s' = 60
         \<and> availablePlayers s' =
              filter (\<lambda>p. playerId p \<noteq> playerId exampleCentre) (availablePlayers exampleDraft))"
proof -
  have i: "currentPickIndex exampleDraft = 0" "draftTimerSeconds exampleSettings = 60"
    by (simp_all add: exampleDraft_def exampleSettings_def)
  from makePick_records[OF example_draft_hyps, of exampleCentre 0]
  obtain s' where "makePick exampleDraft exampleCentre 0 = Inr s'"
    "currentPickIndex s' = currentPickIndex exampleDraft + 1"
    "isDraftComplete s' = (currentPickIndex s' = length (draftOrder exampleDraft))"
    "pickTimerRemaining s' = draftTimerSeconds exampleSettings"
    "availablePlayers s' =
       filter (\<lambda>p. playerId p \<noteq> playerId exampleCentre) (availablePlayers exampleDraft)"
    by blast
  then show ?thesis using example_draft_hyps unfolding i by simp
qed

text \<open>
  A submission against slot 0 after it has been filled, and an auto-pick on an empty pool.
\<close>

theorem makePick_autoPick_noop_witness:
  "player (draftOrder exampleStaleSlot ! currentPickIndex exampleStaleSlot) \<noteq> None
   \<and> makePick exampleStaleSlot exampleCentre 5 = Inr exampleStaleSlot
   \<and> autoPick exampleStaleSlot 5 = Inr exampleStaleSlot
   \<and> availablePlayers exampleEmptyPool = []
   \<and> leagueSettings exampleEmptyPool \<noteq> None
   \<and> autoPick exampleEmptyPool 5 = Inr exampleEmptyPool"
proof -
  have h1: "player (draftOrder exampleStaleSlot ! currentPickIndex exampleStaleSlot) \<noteq> None"
    by (simp add: exampleStaleSlot_def exampleAfterFirstPick_def)
  have h2: "availablePlayers exampleEmptyPool = []" "leagueSettings exampleEmptyPool \<noteq> None"
    by (simp_all add: exampleEmptyPool_def exampleDraft_def)
  from makePick_autoPick_noop[of exampleStaleSlot exampleCentre 5] h1
  have a: "makePick exampleStaleSlot exampleCentre 5 = Inr exampleStaleSlot"
    "autoPick exampleStaleSlot 5 = Inr exampleStaleSlot" by blast+
  from makePick_autoPick_noop[of exampleEmptyPool exampleCentre 5] h2
  have b: "autoPick exampleEmptyPool 5 = Inr exampleEmptyPool" by blast
  show ?thesis using h1 h2 a b by blast
qed

lemma example_after_first_hyps:
  "currentPickIndex exampleAfterFirstPick < length (draftOrder exampleAfterFirstPick)"
  "player (draftOrder exampleAfterFirstPick ! currentPickIndex exampleAfterFirstPick) = None"
  "leagueSettings exampleAfterFirstPick = Some exampleSettings"
  by (simp_all add: exampleAfterFirstPick_def example_teamIndex)

lemma any_player_step:
  assumes "currentPickIndex state < length (draftOrder state)"
    and "player (draftOrder state ! currentPickIndex state) = None"
    and "leagueSettings state = Some ls"
  shows "\<exists>s'. makePick state plr now = Inr s'
    \<and> player (draftOrder s' ! currentPickIndex state) = Some plr
    \<and> length (teams s') = length (teams state)
    \<and> (\<forall>k < length (teams state).
          picks (teams s' ! k) =
            (if int k = teamIndex (draftOrder state ! currentPickIndex state)
             then picks (teams state ! k) @ [plr] else picks (teams state ! k)))
    \<and> ((\<forall>p \<in> set (availablePlayers state). playerId p \<noteq> playerId plr)
         \<longrightarrow> availablePlayers s' = availablePlayers state)"
proof -
  let ?i = "currentPickIndex state"
  let ?cp = "draftOrder state ! ?i"
  have cp: "arrayGet (draftOrder state) ?i = Some ?cp"
    using assms(1) by (rule arrayGet_in_range)
  note step = makePick_step[OF cp assms(2) assms(3), of plr now]
  have picks_nth: "\<forall>k < length (teams state).
      picks (newTeamsOf state ?cp plr (rosterConfig ls) ! k) =
        (if int k = teamIndex ?cp then picks (teams state ! k) @ [plr] else picks (teams state ! k))"
    by (simp add: nth_newTeamsOf picks_pickedTeam)
  have av: "(\<forall>p \<in> set (availablePlayers state). playerId p \<noteq> playerId plr)
      \<longrightarrow> filter (\<lambda>p. playerId p \<noteq> playerId plr) (availablePlayers state) = availablePlayers state"
    by (simp add: filter_id_conv)
  show ?thesis
    unfolding step using assms(1) picks_nth av by (simp add: length_newTeamsOf)
qed

text \<open>
  Claim C10. For an in-range, unfilled current slot (and league settings set) and any
  player whatever, \<open>makePick\<close> succeeds: the slot holds the player and the owning team's
  picks end with the player; when no available player has the submitted identifier the pool
  is left as it is. In the example draft the same player, never in the pool, is taken by
  team 0 and then by team 1, and is on both rosters.
\<close>

theorem makePick_any_player:
  "(currentPickIndex state < length (draftOrder state)
      \<and> player (draftOrder state ! currentPickIndex state) = None
      \<and> leagueSettings state = Some ls
     \<longrightarrow> (\<exists>s'. makePick state plr now = Inr s'
            \<and> player (draftOrder s' ! currentPickIndex state) = Some plr
            \<and> (\<forall>k < length (teams state).
                  int k = teamIndex (draftOrder state ! currentPickIndex state) \<longrightarrow>
                  picks (teams s' ! k) = picks (teams state ! k) @ [plr])
            \<and> ((\<forall>p \<in> set (availablePlayers state). playerId p \<noteq> playerId plr)
                 \<longrightarrow> availablePlayers s' = availablePlayers state)))
   \<and> (\<exists>s1 s2. makePick exampleDraft exampleCentre 0 = Inr s1
         \<and> player (draftOrder s1 ! 0) = Some exampleCentre
         \<and> makePick s1 exampleCentre 1 = Inr s2
         \<and> exampleCentre \<in> set (picks (teams s2 ! 0))
         \<and> exampleCentre \<in> set (picks (teams s2 ! 1)))"
proof -
  have general: "\<exists>s'. makePick state plr now = Inr s'
            \<and> player (draftOrder s' ! currentPickIndex state) = Some plr
            \<and> (\<forall>k < length (teams state).
                  int k = teamIndex (draftOrder state ! currentPickIndex state) \<longrightarrow>
                  picks (teams s' ! k) = picks (teams state ! k) @ [plr])
            \<and> ((\<forall>p \<in> set (availablePlayers state). playerId p \<noteq> playerId plr)
                 \<longrightarrow> availablePlayers s' = availablePlayers state)"
    if "currentPickIndex state < length (draftOrder state)"
      "player (draftOrder state ! currentPickIndex state) = None"
      "leagueSettings state = Some ls"
    using any_player_step[OF that, of plr now] by auto
  from any_player_step[OF example_after_first_hyps, of exampleCentre 1]
  obtain s2 where s2: "makePick exampleAfterFirstPick exampleCentre 1 = Inr s2"
    "\<forall>k < length (teams exampleAfterFirstPick).
          picks (teams s2 ! k) =
            (if int k = teamIndex (draftOrder exampleAfterFirstPick
                                     ! currentPickIndex exampleAfterFirstPick)
             then picks (teams exampleAfterFirstPick ! k) @ [exampleCentre]
             else picks (teams exampleAfterFirstPick ! k))"
    by blast
  have "picks (teams s2 ! 0) = [exampleCentre]" "picks (teams s2 ! 1) = [exampleCentre]"
    using s2(2) by (simp_all add: exampleAfterFirstPick_def example_teamIndex exampleRoster_def)
  then have both: "exampleCentre \<in> set (picks (teams s2 ! 0))"
    "exampleCentre \<in> set (picks (teams s2 ! 1))" by simp_all
  have slot: "player (draftOrder exampleAfterFirstPick ! 0) = Some exampleCentre"
    by (simp add: exampleAfterFirstPick_def)
  show ?thesis using general example_first_pick slot s2(1) both by blast
qed

text \<open>
  The second submission of the player already recorded in slot 0.
\<close>

theorem makePick_any_player_witness:
  "currentPickIndex exampleAfterFirstPick < length (draftOrder exampleAfterFirstPick)
   \<and> player (draftOrder exampleAfterFirstPick ! currentPickIndex exampleAfterFirstPick) = None
   \<and> leagueSettings exampleAfterFirstPick = Some exampleSettings
   \<and> player (draftOrder exampleAfterFirstPick ! 0) = Some exampleCentre
   \<and> playerId exampleCentre \<notin> set (map playerId (availablePlayers exampleAfterFirstPick))
   \<and> (\<exists>s'. makePick exampleAfterFirstPick exampleCentre 1 = Inr s'
         \<and> player (draftOrder s' ! currentPickIndex exampleAfterFirstPick) = Some exampleCentre
         \<and> availablePlayers s' = availablePlayers exampleAfterFirstPick)"
proof -
  have slot: "player (draftOrder exampleAfterFirstPick ! 0) = Some exampleCentre"
    by (simp add: exampleAfterFirstPick_def)
  have out: "playerId exampleCentre \<notin> set (map playerId (availablePlayers exampleAfterFirstPick))"
    by (simp add: exampleAfterFirstPick_def examplePool_def exampleCentre_def examplePlayer_def)
  have out': "\<forall>p \<in> set (availablePlayers exampleAfterFirstPick).
      playerId p \<noteq> playerId exampleCentre"
    by (simp add: exampleAfterFirstPick_def examplePool_def exampleCentre_def examplePlayer_def)
  from makePick_any_player[of exampleAfterFirstPick exampleSettings exampleCentre 1]
  have "\<exists>s'. makePick exampleAfterFirstPick exampleCentre 1 = Inr s'
         \<and> player (draftOrder s' ! currentPickIndex exampleAfterFirstPick) = Some exampleCentre
         \<and> availablePlayers s' = availablePlayers exampleAfterFirstPick"
    using example_after_first_hyps out' by blast
  then show ?thesis using example_after_first_hyps slot out by blast
qed

end
